theory Spec2Isabelle
  imports Main
begin

section \<open>Errors and tensors\<close>

text \<open>
  Every \<^verbatim>\<open>raise\<close> and failing \<^verbatim>\<open>assert\<close> of the Python is a value of
  \<open>error\<close>; a function that can fail returns \<open>error + 'a\<close> with \<open>Inl\<close> the error.
\<close>

datatype error = AssertionError | ValueError | IndexError | ZeroDivisionError | TypeError

text \<open>
  An n-dimensional array: its shape and its entries in row-major order. The entry
  type is a parameter; the arithmetic claims take it from an abelian group (exact
  arithmetic, no rounding).
\<close>

record 'a tensor =
  shape :: "nat list"
  data :: "'a list"

definition well_shaped :: "'a tensor \<Rightarrow> bool" where
  "well_shaped x \<longleftrightarrow> length (data x) = prod_list (shape x)"

text \<open>
  Modelled from the spec: \<^verbatim>\<open>np.reshape\<close> of the tensor engine ("reshape is lossless").
  A row-major reshape keeps the entries and replaces the shape; it raises ValueError
  when the new shape has another number of entries.
\<close>

definition reshape :: "'a tensor \<Rightarrow> nat list \<Rightarrow> error + 'a tensor" where
  "reshape x newshape =
     (if prod_list newshape = prod_list (shape x)
      then Inr \<lparr>shape = newshape, data = data x\<rparr>
      else Inl ValueError)"

section \<open>Chunk and Unchunk\<close>

text \<open>
  \<^verbatim>\<open>
  @tl.layer()
  def Chunk(x, weights, n_sections=2, **kwargs):
    del weights, kwargs
    assert x.shape[1] % n_sections == 0
    return np.reshape(x, (
        x.shape[0] * n_sections,
        x.shape[1] // n_sections,
        ) + x.shape[2:])
  \<close>
  \<open>n_sections\<close> is a count of sections, a natural number. \<^verbatim>\<open>x.shape[1]\<close> raises
  IndexError on a tensor of rank below 2, and \<^verbatim>\<open>% 0\<close> raises ZeroDivisionError, both
  before the assertion is decided.
\<close>

definition Chunk :: "nat \<Rightarrow> 'a tensor \<Rightarrow> error + 'a tensor" where
  "Chunk n_sections x =
     (if length (shape x) < 2 then Inl IndexError
      else if n_sections = 0 then Inl ZeroDivisionError
      else if shape x ! 1 mod n_sections \<noteq> 0 then Inl AssertionError
      else reshape x ([shape x ! 0 * n_sections, shape x ! 1 div n_sections]
                      @ drop 2 (shape x)))"

text \<open>
  \<^verbatim>\<open>
  @tl.layer()
  def Unchunk(x, weights, n_sections=2, **kwargs):
    del weights, kwargs
    assert x.shape[0] % n_sections == 0
    return np.reshape(x, (
        x.shape[0] // n_sections,
        x.shape[1] * n_sections,
        ) + x.shape[2:])
  \<close>
  Here \<^verbatim>\<open>x.shape[0]\<close> is read first (IndexError at rank 0), and \<^verbatim>\<open>x.shape[1]\<close> only
  when the new shape is built, after the assertion.
\<close>

definition Unchunk :: "nat \<Rightarrow> 'a tensor \<Rightarrow> error + 'a tensor" where
  "Unchunk n_sections x =
     (if length (shape x) < 1 then Inl IndexError
      else if n_sections = 0 then Inl ZeroDivisionError
      else if shape x ! 0 mod n_sections \<noteq> 0 then Inl AssertionError
      else if length (shape x) < 2 then Inl IndexError
      else reshape x ([shape x ! 0 div n_sections, shape x ! 1 * n_sections]
                      @ drop 2 (shape x)))"

section \<open>Splitting and concatenating along an axis\<close>

text \<open>
  Modelled from the spec: the tensor engine's "reshape/concatenate/split along a
  specified axis" (\<^verbatim>\<open>np.split\<close>, \<^verbatim>\<open>np.concatenate\<close>), not part of this repository's
  file. A negative axis counts from the last one. Along axis \<open>k\<close> a row-major tensor
  is \<open>outer\<close> consecutive blocks (the product of the extents before \<open>k\<close>), each of
  \<open>extent k * inner\<close> entries (\<open>inner\<close> the product of the extents after \<open>k\<close>).
\<close>

definition norm_axis :: "int \<Rightarrow> nat \<Rightarrow> error + nat" where
  "norm_axis axis rank =
     (if 0 \<le> axis \<and> axis < int rank then Inr (nat axis)
      else if axis < 0 \<and> - int rank \<le> axis then Inr (nat (int rank + axis))
      else Inl IndexError)"

definition block :: "nat \<Rightarrow> 'a list \<Rightarrow> nat \<Rightarrow> 'a list" where
  "block m xs i = take m (drop (i * m) xs)"

definition outer :: "nat list \<Rightarrow> nat \<Rightarrow> nat" where
  "outer s k = prod_list (take k s)"

definition inner :: "nat list \<Rightarrow> nat \<Rightarrow> nat" where
  "inner s k = prod_list (drop (Suc k) s)"

text \<open>Section \<open>j\<close> of \<open>x\<close> along axis \<open>k\<close>, each section of extent \<open>e'\<close>.\<close>

definition split_part :: "'a tensor \<Rightarrow> nat \<Rightarrow> nat \<Rightarrow> nat \<Rightarrow> 'a tensor" where
  "split_part x k e' j =
     \<lparr>shape = (shape x)[k := e'],
      data = concat (map (\<lambda>i. block (e' * inner (shape x) k)
                                    (block (shape x ! k * inner (shape x) k) (data x) i) j)
                         [0..<outer (shape x) k])\<rparr>"

text \<open>
  \<^verbatim>\<open>np.split(x, sections, axis)\<close> with an integer number of sections: equal sections,
  ValueError when the extent is not a multiple of \<open>sections\<close>.
\<close>

definition np_split :: "'a tensor \<Rightarrow> nat \<Rightarrow> int \<Rightarrow> error + 'a tensor list" where
  "np_split x sections axis =
     (case norm_axis axis (length (shape x)) of
        Inl e \<Rightarrow> Inl e
      | Inr k \<Rightarrow>
          if sections = 0 then Inl ZeroDivisionError
          else if shape x ! k mod sections \<noteq> 0 then Inl ValueError
          else Inr (map (split_part x k (shape x ! k div sections)) [0..<sections]))"

text \<open>
  \<^verbatim>\<open>np.concatenate(xs, axis)\<close>: the tensors agree in rank and in every extent but the
  one of the axis (ValueError otherwise, and for an empty list).
\<close>

definition np_concatenate :: "'a tensor list \<Rightarrow> int \<Rightarrow> error + 'a tensor" where
  "np_concatenate xs axis =
     (case xs of
        [] \<Rightarrow> Inl ValueError
      | x # _ \<Rightarrow>
          (case norm_axis axis (length (shape x)) of
             Inl e \<Rightarrow> Inl e
           | Inr k \<Rightarrow>
               if list_all (\<lambda>u. length (shape u) = length (shape x)
                                 \<and> (shape u)[k := 0] = (shape x)[k := 0]) xs
               then Inr \<lparr>shape = (shape x)[k := sum_list (map (\<lambda>u. shape u ! k) xs)],
                         data = concat (map (\<lambda>i. concat (map (\<lambda>u.
                                    block (shape u ! k * inner (shape x) k) (data u) i) xs))
                                  [0..<outer (shape x) k])\<rparr>
               else Inl ValueError))"

text \<open>Running a list of fallible results in order: the first error wins.\<close>

fun collect :: "(error + 'a) list \<Rightarrow> error + 'a list" where
  "collect [] = Inr []"
| "collect (Inl e # rs) = Inl e"
| "collect (Inr v # rs) = (case collect rs of Inl e \<Rightarrow> Inl e | Inr vs \<Rightarrow> Inr (v # vs))"

section \<open>SplitForOutput\<close>

text \<open>
  \<^verbatim>\<open>
  def forward(self, inputs, weights):
    del weights
    x1, x2 = inputs
    x1_split = np.split(x1, self._n_sections, self._axis)
    x2_split = np.split(x2, self._n_sections, self._axis)
    res = [np.concatenate(ys, -1) for ys in zip(x1_split, x2_split)]
    return tuple(res)
  \<close>
  The layer's configuration (\<open>n_sections\<close>, \<open>axis\<close>, default 2 and -2) comes first.
  Unpacking \<^verbatim>\<open>x1, x2 = inputs\<close> raises ValueError unless there are two inputs.
\<close>

definition SplitForOutput_forward ::
    "nat \<Rightarrow> int \<Rightarrow> 'a tensor list \<Rightarrow> error + 'a tensor list" where
  "SplitForOutput_forward n_sections axis inputs =
     (case inputs of
        [x1, x2] \<Rightarrow>
          (case np_split x1 n_sections axis of
             Inl e \<Rightarrow> Inl e
           | Inr x1_split \<Rightarrow>
               (case np_split x2 n_sections axis of
                  Inl e \<Rightarrow> Inl e
                | Inr x2_split \<Rightarrow>
                    collect (map (\<lambda>(a, b). np_concatenate [a, b] (- 1))
                                 (zip x1_split x2_split))))
      | _ \<Rightarrow> Inl ValueError)"

text \<open>
  \<^verbatim>\<open>
  def reverse(self, output, weights=(), state=(), new_state=(), **kwargs):
    del weights, kwargs
    x1_split = []
    x2_split = []
    for y in output:
      y1, y2 = np.split(y, 2, -1)
      x1_split.append(y1)
      x2_split.append(y2)
    x1 = np.concatenate(x1_split, self._axis)
    x2 = np.concatenate(x2_split, self._axis)
    return (x1, x2)
  \<close>
  A successful \<^verbatim>\<open>np.split(y, 2, -1)\<close> has exactly two parts, so the unpacking into
  \<open>y1, y2\<close> cannot fail; the loop stops at the first split that raises.
\<close>

definition SplitForOutput_reverse ::
    "nat \<Rightarrow> int \<Rightarrow> 'a tensor list \<Rightarrow> error + 'a tensor list" where
  "SplitForOutput_reverse n_sections axis output =
     (case collect (map (\<lambda>y. np_split y 2 (- 1)) output) of
        Inl e \<Rightarrow> Inl e
      | Inr halves \<Rightarrow>
          (case np_concatenate (map (\<lambda>h. h ! 0) halves) axis of
             Inl e \<Rightarrow> Inl e
           | Inr x1 \<Rightarrow>
               (case np_concatenate (map (\<lambda>h. h ! 1) halves) axis of
                  Inl e \<Rightarrow> Inl e
                | Inr x2 \<Rightarrow> Inr [x1, x2])))"

text \<open>
  \<^verbatim>\<open>
  def reverse_and_grad(self, output, ct, weights=(), state=(), new_state=(), **kwargs):
    del weights, kwargs
    return self.reverse(output), (self.reverse(ct), ())
  \<close>
  The empty tuple of weight gradients is the empty list.
\<close>

definition SplitForOutput_reverse_and_grad ::
    "nat \<Rightarrow> int \<Rightarrow> 'a tensor list \<Rightarrow> 'a tensor list
      \<Rightarrow> error + ('a tensor list \<times> ('a tensor list \<times> unit list))" where
  "SplitForOutput_reverse_and_grad n_sections axis output ct =
     (case SplitForOutput_reverse n_sections axis output of
        Inl e \<Rightarrow> Inl e
      | Inr x \<Rightarrow>
          (case SplitForOutput_reverse n_sections axis ct of
             Inl e \<Rightarrow> Inl e
           | Inr x_ct \<Rightarrow> Inr (x, (x_ct, []))))"

section \<open>Elementwise arithmetic\<close>

text \<open>
  Modelled from the spec: the tensor engine's "shape-preserving elementwise
  add/subtract". The engine is NumPy-like: operands of different shapes are broadcast
  (shapes aligned at the last axis, an extent 1 or a missing axis repeated), and
  ValueError is raised when the shapes are incompatible. On operands of equal shape the
  operation is entry by entry.
\<close>

fun broadcast_shapes_rev :: "nat list \<Rightarrow> nat list \<Rightarrow> nat list option" where
  "broadcast_shapes_rev [] ys = Some ys"
| "broadcast_shapes_rev xs [] = Some xs"
| "broadcast_shapes_rev (x # xs) (y # ys) =
     (if x = y \<or> y = 1 then map_option ((#) x) (broadcast_shapes_rev xs ys)
      else if x = 1 then map_option ((#) y) (broadcast_shapes_rev xs ys)
      else None)"

definition broadcast_shapes :: "nat list \<Rightarrow> nat list \<Rightarrow> nat list option" where
  "broadcast_shapes s t = map_option rev (broadcast_shapes_rev (rev s) (rev t))"

fun bcast :: "nat list \<Rightarrow> nat list \<Rightarrow> 'a list \<Rightarrow> 'a list" where
  "bcast (s # ss) (t # ts) d =
     (if s = t then concat (map (\<lambda>i. bcast ss ts (block (prod_list ss) d i)) [0..<s])
      else concat (replicate t (bcast ss ts d)))"
| "bcast _ _ d = d"

definition broadcast_to :: "'a tensor \<Rightarrow> nat list \<Rightarrow> 'a list" where
  "broadcast_to x s =
     bcast (replicate (length s - length (shape x)) 1 @ shape x) s (data x)"

definition tensor_binop ::
    "('a \<Rightarrow> 'a \<Rightarrow> 'a) \<Rightarrow> 'a tensor \<Rightarrow> 'a tensor \<Rightarrow> error + 'a tensor" where
  "tensor_binop f x y =
     (case broadcast_shapes (shape x) (shape y) of
        None \<Rightarrow> Inl ValueError
      | Some s \<Rightarrow> Inr \<lparr>shape = s,
                        data = map2 f (broadcast_to x s) (broadcast_to y s)\<rparr>)"

definition tensor_add :: "'a::ab_group_add tensor \<Rightarrow> 'a tensor \<Rightarrow> error + 'a tensor" where
  "tensor_add = tensor_binop (+)"

definition tensor_sub :: "'a::ab_group_add tensor \<Rightarrow> 'a tensor \<Rightarrow> error + 'a tensor" where
  "tensor_sub = tensor_binop (-)"

definition tensor_neg :: "'a::ab_group_add tensor \<Rightarrow> 'a tensor" where
  "tensor_neg x = \<lparr>shape = shape x, data = map uminus (data x)\<rparr>"

definition zeros_like :: "'a::ab_group_add tensor \<Rightarrow> 'a tensor" where
  "zeros_like x = \<lparr>shape = shape x, data = map (\<lambda>_. 0) (data x)\<rparr>"

text \<open>
  The cotangent of a broadcast operand: the output cotangent summed over the axes that
  broadcasting repeated, in the operand's shape.
\<close>

definition pointwise_sum :: "'a::ab_group_add list list \<Rightarrow> nat \<Rightarrow> 'a list" where
  "pointwise_sum rows m = fold (\<lambda>row acc. map2 (+) acc row) rows (replicate m 0)"

definition sum_axis :: "'a::ab_group_add tensor \<Rightarrow> nat \<Rightarrow> 'a tensor" where
  "sum_axis x k =
     \<lparr>shape = (shape x)[k := 1],
      data = concat (map (\<lambda>i. pointwise_sum
                 (map (block (inner (shape x) k)
                        (block (shape x ! k * inner (shape x) k) (data x) i))
                      [0..<shape x ! k])
                 (inner (shape x) k))
               [0..<outer (shape x) k])\<rparr>"

definition unbroadcast :: "'a::ab_group_add tensor \<Rightarrow> nat list \<Rightarrow> 'a tensor" where
  "unbroadcast c s =
     (let padded = replicate (length (shape c) - length s) 1 @ s;
          axes = filter (\<lambda>k. padded ! k = 1 \<and> shape c ! k \<noteq> 1) [0..<length (shape c)]
      in \<lparr>shape = s, data = data (fold (\<lambda>k x. sum_axis x k) axes c)\<rparr>)"

section \<open>Layers\<close>

text \<open>
  Modelled from the spec: the layer framework (\<^verbatim>\<open>trax.layers\<close>: \<^verbatim>\<open>Layer\<close>, \<^verbatim>\<open>Serial\<close>,
  \<^verbatim>\<open>Parallel\<close>, \<^verbatim>\<open>Dup\<close>, \<^verbatim>\<open>Swap\<close>, \<^verbatim>\<open>Select\<close>, \<^verbatim>\<open>Add\<close>, \<^verbatim>\<open>SubtractTop\<close>), the PRNG and
  the differentiation primitive are not in the repository's file. The spec's section 6
  gives their contracts: a layer has "a forward operation taking (input, params, state,
  rng) -> (output, new_state)"; the PRNG is "deterministic ... with an explicit split
  operation producing N independent child streams"; the differentiation primitive takes
  "a function and inputs, returning (outputs, a callable that maps output-gradients to
  input-gradients and parameter-gradients)". The stack effect of each combinator is
  the one the source's own comments give beside each use.

  Parameters and state are nested tuples with tensors at the leaves; the empty tuple
  is \<open>Node []\<close>.
\<close>

datatype 'w tree = Leaf 'w | Node "'w tree list"


text \<open>
  A key of the PRNG is the seed, or the \<open>i\<close>-th child of a key split \<open>n\<close> ways:
  splitting is deterministic, and keys obtained in different ways are different.
\<close>

datatype rng = Key nat | Child rng nat nat

definition random_split :: "rng \<Rightarrow> nat \<Rightarrow> rng list" where
  "random_split r n = map (Child r n) [0..<n]"

text \<open>
  \<^verbatim>\<open>rngs = (None,) * n; if rng is not None: rngs = random.split(rng, n)\<close>, which is also
  what \<^verbatim>\<open>_pop_rng_and_split\<close> returns.
\<close>

definition split_rngs :: "rng option \<Rightarrow> nat \<Rightarrow> rng option list" where
  "split_rngs rng n =
     (case rng of None \<Rightarrow> replicate n None | Some r \<Rightarrow> map Some (random_split r n))"

text \<open>
  A layer: its arities, its forward operation, and its pullback (what the
  differentiation primitive returns for it: at inputs, parameters, state and key, the
  map from an output cotangent to the input cotangent and the parameter cotangent).
\<close>

record 'a layer =
  n_in :: nat
  n_out :: nat
  forward_with_state ::
    "'a tensor list \<Rightarrow> 'a tensor tree \<Rightarrow> 'a tensor tree \<Rightarrow> rng option
      \<Rightarrow> error + ('a tensor list \<times> 'a tensor tree)"
  pullback ::
    "'a tensor list \<Rightarrow> 'a tensor tree \<Rightarrow> 'a tensor tree \<Rightarrow> rng option
      \<Rightarrow> 'a tensor list \<Rightarrow> error + ('a tensor list \<times> 'a tensor tree)"



text \<open>The cotangent of parameters that a computation does not read: zeros.\<close>

definition zero_cotangent :: "'a::ab_group_add tensor tree \<Rightarrow> 'a tensor tree" where
  "zero_cotangent p = map_tree zeros_like p"

subsection \<open>Stack primitives\<close>

text \<open>A function layer without parameters: the state passes through unchanged.\<close>

definition fn_layer ::
    "nat \<Rightarrow> nat \<Rightarrow> ('a::ab_group_add tensor list \<Rightarrow> error + 'a tensor list)
      \<Rightarrow> ('a tensor list \<Rightarrow> 'a tensor list \<Rightarrow> error + 'a tensor list) \<Rightarrow> 'a layer" where
  "fn_layer i out f back =
     \<lparr>n_in = i, n_out = out,
      forward_with_state = (\<lambda>xs p s r.
         if length xs \<noteq> i then Inl ValueError
         else case f xs of Inl e \<Rightarrow> Inl e | Inr ys \<Rightarrow> Inr (ys, s)),
      pullback = (\<lambda>xs p s r ct.
         if length xs \<noteq> i \<or> length ct \<noteq> out then Inl ValueError
         else case back xs ct of Inl e \<Rightarrow> Inl e | Inr g \<Rightarrow> Inr (g, zero_cotangent p))\<rparr>"

text \<open>\<^verbatim>\<open>Dup\<close>: \<open>x, ... -> x, x, ...\<close>; the two cotangents add up.\<close>

definition Dup :: "'a::ab_group_add layer" where
  "Dup = fn_layer 1 2 (\<lambda>xs. Inr [xs ! 0, xs ! 0])
     (\<lambda>xs ct. if shape (ct ! 0) \<noteq> shape (xs ! 0) \<or> shape (ct ! 1) \<noteq> shape (xs ! 0)
               then Inl ValueError
               else case tensor_add (ct ! 0) (ct ! 1) of
                      Inl e \<Rightarrow> Inl e | Inr g \<Rightarrow> Inr [g])"

text \<open>\<^verbatim>\<open>Swap\<close>: \<open>a, b, ... -> b, a, ...\<close>.\<close>

definition Swap :: "'a::ab_group_add layer" where
  "Swap = fn_layer 2 2 (\<lambda>xs. Inr [xs ! 1, xs ! 0]) (\<lambda>xs ct. Inr [ct ! 1, ct ! 0])"

text \<open>
  \<^verbatim>\<open>Select(indices)\<close>: the outputs are the inputs at \<open>indices\<close>, in that order, out of the
  first \<open>max indices + 1\<close> inputs. An input's cotangent is the sum of the cotangents of
  the outputs that copy it (zeros when none does).
\<close>

definition Select :: "nat list \<Rightarrow> 'a::ab_group_add layer" where
  "Select indices =
     fn_layer (Suc (fold max indices 0)) (length indices)
       (\<lambda>xs. Inr (map (\<lambda>i. xs ! i) indices))
       (\<lambda>xs ct. collect (map (\<lambda>p.
           case filter (\<lambda>j. indices ! j = p) [0..<length indices] of
             [] \<Rightarrow> Inr (zeros_like (xs ! p))
           | j # js \<Rightarrow> fold (\<lambda>j' acc. case acc of Inl e \<Rightarrow> Inl e
                                        | Inr g \<Rightarrow> tensor_add g (ct ! j'))
                           js (Inr (ct ! j)))
         [0..<length xs]))"

text \<open>
  \<^verbatim>\<open>Add\<close>: \<open>a, b, ... -> a + b, ...\<close>. \<^verbatim>\<open>SubtractTop\<close>: \<open>a, b, ... -> b - a, ...\<close> ("subtracts
  the first tensor from the second"). A cotangent has the shape of the output.
\<close>

definition Add :: "'a::ab_group_add layer" where
  "Add = fn_layer 2 1
     (\<lambda>xs. case tensor_add (xs ! 0) (xs ! 1) of Inl e \<Rightarrow> Inl e | Inr y \<Rightarrow> Inr [y])
     (\<lambda>xs ct. if broadcast_shapes (shape (xs ! 0)) (shape (xs ! 1)) \<noteq> Some (shape (ct ! 0))
               then Inl ValueError
               else Inr [unbroadcast (ct ! 0) (shape (xs ! 0)),
                         unbroadcast (ct ! 0) (shape (xs ! 1))])"

definition SubtractTop :: "'a::ab_group_add layer" where
  "SubtractTop = fn_layer 2 1
     (\<lambda>xs. case tensor_sub (xs ! 1) (xs ! 0) of Inl e \<Rightarrow> Inl e | Inr y \<Rightarrow> Inr [y])
     (\<lambda>xs ct. if broadcast_shapes (shape (xs ! 1)) (shape (xs ! 0)) \<noteq> Some (shape (ct ! 0))
               then Inl ValueError
               else Inr [unbroadcast (tensor_neg (ct ! 0)) (shape (xs ! 0)),
                         unbroadcast (ct ! 0) (shape (xs ! 1))])"

subsection \<open>Serial and Parallel\<close>

text \<open>
  \<^verbatim>\<open>Serial(layers)\<close> runs its sublayers in order on a stack: each takes its \<open>n_in\<close> inputs
  from the top and puts its outputs back there. Sublayer \<open>i\<close> gets the \<open>i\<close>-th entry of
  the parameters, of the state and of the split key. Its arities are the running
  maximum of inputs needed and what is left on a stack of that size. The empty
  \<^verbatim>\<open>Serial\<close> (written \<^verbatim>\<open>[]\<close> inside a combinator) passes one input through.
\<close>

fun n_inputs_n_outputs :: "'a layer list \<Rightarrow> int \<Rightarrow> int \<Rightarrow> int \<times> int" where
  "n_inputs_n_outputs [] running_max running_total =
     (running_max, running_max - running_total)"
| "n_inputs_n_outputs (l # ls) running_max running_total =
     n_inputs_n_outputs ls
       (max running_max (running_total + int (n_in l)))
       (running_total + int (n_in l) - int (n_out l))"

fun serial_forward ::
    "'a layer list \<Rightarrow> 'a tensor list \<Rightarrow> 'a tensor tree list \<Rightarrow> 'a tensor tree list
      \<Rightarrow> rng option list \<Rightarrow> error + ('a tensor list \<times> 'a tensor tree list)" where
  "serial_forward [] stack _ _ _ = Inr (stack, [])"
| "serial_forward (l # ls) stack (p # ps) (s # ss) (r # rs) =
     (case forward_with_state l (take (n_in l) stack) p s r of
        Inl e \<Rightarrow> Inl e
      | Inr (outputs, s') \<Rightarrow>
          (case serial_forward ls (outputs @ drop (n_in l) stack) ps ss rs of
             Inl e \<Rightarrow> Inl e
           | Inr (ys, ss') \<Rightarrow> Inr (ys, s' # ss')))"
| "serial_forward _ _ _ _ _ = Inl ValueError"

text \<open>
  The chain rule: the cotangent of the final stack is pulled back through the later
  sublayers first, then through this one at the inputs it had in the forward pass. A
  cotangent has one entry for each entry of the final stack (ValueError otherwise).
\<close>

fun serial_pullback ::
    "'a layer list \<Rightarrow> 'a tensor list \<Rightarrow> 'a tensor tree list \<Rightarrow> 'a tensor tree list
      \<Rightarrow> rng option list \<Rightarrow> 'a tensor list
      \<Rightarrow> error + ('a tensor list \<times> 'a tensor tree list)" where
  "serial_pullback [] stack _ _ _ ct =
     (if length ct \<noteq> length stack then Inl ValueError else Inr (ct, []))"
| "serial_pullback (l # ls) stack (p # ps) (s # ss) (r # rs) ct =
     (case forward_with_state l (take (n_in l) stack) p s r of
        Inl e \<Rightarrow> Inl e
      | Inr (outputs, _) \<Rightarrow>
          (case serial_pullback ls (outputs @ drop (n_in l) stack) ps ss rs ct of
             Inl e \<Rightarrow> Inl e
           | Inr (ct', p_cts) \<Rightarrow>
               (case pullback l (take (n_in l) stack) p s r (take (n_out l) ct') of
                  Inl e \<Rightarrow> Inl e
                | Inr (x_ct, p_ct) \<Rightarrow> Inr (x_ct @ drop (n_out l) ct', p_ct # p_cts))))"
| "serial_pullback _ _ _ _ _ _ = Inl ValueError"

definition Serial :: "'a::ab_group_add layer list \<Rightarrow> 'a layer" where
  "Serial sublayers =
     \<lparr>n_in = (if sublayers = [] then 1 else nat (fst (n_inputs_n_outputs sublayers 0 0))),
      n_out = (if sublayers = [] then 1 else nat (snd (n_inputs_n_outputs sublayers 0 0))),
      forward_with_state = (\<lambda>xs weights state rng.
         if sublayers = [] then Inr (xs, state)
         else if int (length xs) < fst (n_inputs_n_outputs sublayers 0 0) then Inl ValueError
         else case (weights, state) of
                (Node ps, Node ss) \<Rightarrow>
                  if length ps \<noteq> length sublayers \<or> length ss \<noteq> length sublayers
                  then Inl ValueError
                  else (case serial_forward sublayers xs ps ss
                               (split_rngs rng (length sublayers)) of
                          Inl e \<Rightarrow> Inl e
                        | Inr (ys, ss') \<Rightarrow> Inr (ys, Node ss'))
              | _ \<Rightarrow> Inl TypeError),
      pullback = (\<lambda>xs weights state rng ct.
         if sublayers = []
         then (if length ct \<noteq> length xs then Inl ValueError
               else Inr (ct, zero_cotangent weights))
         else if int (length xs) < fst (n_inputs_n_outputs sublayers 0 0) then Inl ValueError
         else case (weights, state) of
                (Node ps, Node ss) \<Rightarrow>
                  if length ps \<noteq> length sublayers \<or> length ss \<noteq> length sublayers
                  then Inl ValueError
                  else (case serial_pullback sublayers xs ps ss
                               (split_rngs rng (length sublayers)) ct of
                          Inl e \<Rightarrow> Inl e
                        | Inr (x_ct, p_cts) \<Rightarrow> Inr (x_ct, Node p_cts))
              | _ \<Rightarrow> Inl TypeError)\<rparr>"

text \<open>
  \<^verbatim>\<open>Parallel(layers)\<close> allots its inputs to the sublayers in order, each its \<open>n_in\<close>, and
  concatenates their outputs; parameters, state and the split key go to the sublayers
  by position (the framework asserts that the counts agree).
\<close>

fun parallel_forward ::
    "'a layer list \<Rightarrow> 'a tensor list \<Rightarrow> 'a tensor tree list \<Rightarrow> 'a tensor tree list
      \<Rightarrow> rng option list \<Rightarrow> error + ('a tensor list \<times> 'a tensor tree list)" where
  "parallel_forward [] xs _ _ _ = Inr ([], [])"
| "parallel_forward (l # ls) xs (p # ps) (s # ss) (r # rs) =
     (case forward_with_state l (take (n_in l) xs) p s r of
        Inl e \<Rightarrow> Inl e
      | Inr (outputs, s') \<Rightarrow>
          (case parallel_forward ls (drop (n_in l) xs) ps ss rs of
             Inl e \<Rightarrow> Inl e
           | Inr (ys, ss') \<Rightarrow> Inr (outputs @ ys, s' # ss')))"
| "parallel_forward _ _ _ _ _ = Inl AssertionError"

fun parallel_pullback ::
    "'a layer list \<Rightarrow> 'a tensor list \<Rightarrow> 'a tensor tree list \<Rightarrow> 'a tensor tree list
      \<Rightarrow> rng option list \<Rightarrow> 'a tensor list
      \<Rightarrow> error + ('a tensor list \<times> 'a tensor tree list)" where
  "parallel_pullback [] xs _ _ _ ct = Inr ([], [])"
| "parallel_pullback (l # ls) xs (p # ps) (s # ss) (r # rs) ct =
     (case pullback l (take (n_in l) xs) p s r (take (n_out l) ct) of
        Inl e \<Rightarrow> Inl e
      | Inr (x_ct, p_ct) \<Rightarrow>
          (case parallel_pullback ls (drop (n_in l) xs) ps ss rs (drop (n_out l) ct) of
             Inl e \<Rightarrow> Inl e
           | Inr (x_cts, p_cts) \<Rightarrow> Inr (x_ct @ x_cts, p_ct # p_cts)))"
| "parallel_pullback _ _ _ _ _ _ = Inl AssertionError"

definition Parallel :: "'a::ab_group_add layer list \<Rightarrow> 'a layer" where
  "Parallel sublayers =
     \<lparr>n_in = sum_list (map n_in sublayers),
      n_out = sum_list (map n_out sublayers),
      forward_with_state = (\<lambda>xs weights state rng.
         if length xs < sum_list (map n_in sublayers) then Inl IndexError
         else case (weights, state) of
                (Node ps, Node ss) \<Rightarrow>
                  if length ps \<noteq> length sublayers \<or> length ss \<noteq> length sublayers
                  then Inl AssertionError
                  else (case parallel_forward sublayers xs ps ss
                               (split_rngs rng (length sublayers)) of
                          Inl e \<Rightarrow> Inl e
                        | Inr (ys, ss') \<Rightarrow> Inr (ys, Node ss'))
              | _ \<Rightarrow> Inl TypeError),
      pullback = (\<lambda>xs weights state rng ct.
         if length xs < sum_list (map n_in sublayers) then Inl IndexError
         else if length ct \<noteq> sum_list (map n_out sublayers) then Inl ValueError
         else case (weights, state) of
                (Node ps, Node ss) \<Rightarrow>
                  if length ps \<noteq> length sublayers \<or> length ss \<noteq> length sublayers
                  then Inl AssertionError
                  else (case parallel_pullback sublayers xs ps ss
                               (split_rngs rng (length sublayers)) ct of
                          Inl e \<Rightarrow> Inl e
                        | Inr (x_ct, p_cts) \<Rightarrow> Inr (x_ct, Node p_cts))
              | _ \<Rightarrow> Inl TypeError)\<rparr>"

section \<open>ReversibleHalfResidual\<close>

text \<open>
  \<^verbatim>\<open>
  def __init__(self, residual_layers):
    self.compute_residual = tl.Serial(         # x1_or_y1, x2,           ...
        tl.Parallel([], tl.Dup()),             # x1_or_y1, x2, x2,       ...
        tl.Swap(),                             # x2, x1_or_y1, x2,       ...
        tl.Parallel([], [], residual_layers),  # x2, x1_or_y1, residual, ...
        tl.Select([2, 1, 0]),                  # residual, x1_or_y1, x2, ...
    )
    self.n_preserve = self.compute_residual.n_out - 2
    parallel_preserve = [[]] * self.n_preserve
    layers = [
        self.compute_residual,
        tl.Parallel(tl.Add(), *parallel_preserve)
    ]
    super(ReversibleHalfResidual, self).__init__(layers)
    self.subtract_top = tl.Parallel(tl.SubtractTop(), *parallel_preserve)
    self.reverse_layers = [self.compute_residual, self.subtract_top]
  \<close>
  The forward pass is the one of \<^verbatim>\<open>tl.Serial\<close> on \<open>layers\<close>; \<open>residual_layers\<close> is any
  layer (a list of layers is its \<^verbatim>\<open>Serial\<close>).
\<close>

definition compute_residual :: "'a::ab_group_add layer \<Rightarrow> 'a layer" where
  "compute_residual residual_layers =
     Serial [Parallel [Serial [], Dup],
             Swap,
             Parallel [Serial [], Serial [], residual_layers],
             Select [2, 1, 0]]"

definition n_preserve :: "'a::ab_group_add layer \<Rightarrow> nat" where
  "n_preserve residual_layers = n_out (compute_residual residual_layers) - 2"

definition ReversibleHalfResidual :: "'a::ab_group_add layer \<Rightarrow> 'a layer" where
  "ReversibleHalfResidual residual_layers =
     Serial [compute_residual residual_layers,
             Parallel (Add # replicate (n_preserve residual_layers) (Serial []))]"






section \<open>ReversibleAttentionHalfResidual\<close>










section \<open>Notions used in the statements\<close>

text \<open>The \<open>i\<close>-th key of a split \<open>n\<close> ways, when there is a key at all.\<close>

definition child :: "rng option \<Rightarrow> nat \<Rightarrow> nat \<Rightarrow> rng option" where
  "child rng n i = map_option (\<lambda>r. Child r n i) rng"

text \<open>
  The key that reaches the residual layers inside \<open>compute_residual\<close>: the third of the
  four sublayers' keys, then the third of the three keys of its \<^verbatim>\<open>Parallel\<close>.
\<close>

definition residual_key :: "rng option \<Rightarrow> rng option" where
  "residual_key rng = child (child rng 4 2) 3 2"

text \<open>A layer that returns as many outputs as its \<open>n_out\<close> says.\<close>

definition returns_n_out :: "'a layer \<Rightarrow> bool" where
  "returns_n_out f \<longleftrightarrow>
     (\<forall>xs p s r ys s'. length xs = n_in f \<longrightarrow> forward_with_state f xs p s r = Inr (ys, s')
        \<longrightarrow> length ys = n_out f)"



text \<open>
  Parameters (and, in the same layout, state) of a \<open>ReversibleHalfResidual\<close> as a
  sequence with one entry per sublayer of \<open>layers\<close>: the entry of \<open>compute_residual\<close>
  holds one entry for each of its four sublayers, the third of them one for each branch
  of its \<^verbatim>\<open>Parallel\<close>, whose last is the residual layers' own; the entry of the
  \<^verbatim>\<open>Parallel(Add, [])\<close> holds two.
\<close>

definition half_residual_tree ::
    "'w tree \<Rightarrow> 'w tree \<Rightarrow> 'w tree \<Rightarrow> 'w tree \<Rightarrow> 'w tree \<Rightarrow> 'w tree \<Rightarrow> 'w tree
      \<Rightarrow> 'w tree \<Rightarrow> 'w tree \<Rightarrow> 'w tree list" where
  "half_residual_tree a b c d e f_entry g h i =
     [Node [Node [a, b], c, Node [d, e, f_entry], g], Node [h, i]]"

text \<open>
  The pairing of a tuple of tensors with a tuple of cotangents: the sum of the products
  of corresponding entries. A linear map \<open>F\<close> has the input gradient \<open>G\<close> when
  \<open>pairing (F x) ct = pairing x (G ct)\<close> for all \<open>x\<close> and \<open>ct\<close>.
\<close>

definition dot :: "'a::comm_semiring_0 list \<Rightarrow> 'a list \<Rightarrow> 'a" where
  "dot xs ys = sum_list (map2 (*) xs ys)"

definition pairing :: "'a::comm_semiring_0 tensor list \<Rightarrow> 'a tensor list \<Rightarrow> 'a" where
  "pairing xs cs = sum_list (map2 (\<lambda>x c. dot (data x) (data c)) xs cs)"










section \<open>Layers for the concrete inputs\<close>

text \<open>
  A residual layer without parameters that doubles its input (its pullback doubles the
  cotangent). It is not part of the repository: the theorems below are applied to it at
  concrete tensors.
\<close>

definition Double :: "'a::ab_group_add layer" where
  "Double = fn_layer 1 1
     (\<lambda>xs. case tensor_add (xs ! 0) (xs ! 0) of Inl e \<Rightarrow> Inl e | Inr y \<Rightarrow> Inr [y])
     (\<lambda>xs ct. case tensor_add (ct ! 0) (ct ! 0) of Inl e \<Rightarrow> Inl e | Inr g \<Rightarrow> Inr [g])"









text \<open>
  The parameters (and state) of a \<open>ReversibleHalfResidual\<close> whose residual layers have
  none: an empty tuple at every sublayer.
\<close>

definition no_params :: "'a tensor tree list" where
  "no_params = half_residual_tree (Node []) (Node []) (Node []) (Node []) (Node [])
                 (Node []) (Node []) (Node []) (Node [])"

section \<open>Blocks of a row-major list\<close>

lemma concat_blocks_take: "concat (map (block m xs) [0..<n]) = take (n * m) xs"
proof (induction n)
  case 0
  then show ?case by simp
next
  case (Suc n)
  have "take (n * m + m) xs = take (n * m) xs @ take m (drop (n * m) xs)"
    by (rule take_add)
  with Suc show ?case by (simp add: block_def add.commute)
qed

lemma concat_blocks: "length xs = n * m \<Longrightarrow> concat (map (block m xs) [0..<n]) = xs"
  by (simp add: concat_blocks_take)

lemma length_block: "Suc i * m \<le> length xs \<Longrightarrow> length (block m xs i) = m"
  by (simp add: block_def)

lemma length_concat_const:
  "\<forall>xs \<in> set xss. length xs = m \<Longrightarrow> length (concat xss) = length xss * m"
  by (induction xss) auto

lemma block_concat:
  "\<forall>xs \<in> set xss. length xs = m \<Longrightarrow> j < length xss \<Longrightarrow> block m (concat xss) j = xss ! j"
proof (induction xss arbitrary: j)
  case Nil
  then show ?case by simp
next
  case (Cons a xss)
  show ?case
  proof (cases j)
    case 0
    with Cons.prems show ?thesis by (simp add: block_def)
  next
    case (Suc i)
    with Cons.prems have "block m (concat xss) i = xss ! i"
      by (intro Cons.IH) auto
    with Suc Cons.prems show ?thesis by (simp add: block_def)
  qed
qed

lemma prod_list_axis:
  "k < length s \<Longrightarrow> prod_list s = outer s k * (s ! k * inner s k)"
proof -
  assume k: "k < length s"
  then have "s = take k s @ s ! k # drop (Suc k) s" by (simp add: id_take_nth_drop)
  then have "prod_list s = prod_list (take k s @ s ! k # drop (Suc k) s)" by simp
  then show ?thesis by (simp add: outer_def inner_def)
qed

lemma outer_update [simp]: "outer (s[k := v]) k = outer s k"
  by (simp add: outer_def)

lemma inner_update [simp]: "inner (s[k := v]) k = inner s k"
  by (simp add: inner_def)

lemma norm_axis_lt: "norm_axis axis r = Inr k \<Longrightarrow> k < r"
  by (auto simp: norm_axis_def split: if_splits)

lemma collect_map_Inr [simp]: "collect (map (\<lambda>x. Inr (f x)) xs) = Inr (map f xs)"
  by (induction xs) auto

section \<open>Splitting and concatenating are inverse\<close>

lemma length_data_axis:
  "well_shaped x \<Longrightarrow> k < length (shape x) \<Longrightarrow>
   length (data x) = outer (shape x) k * (shape x ! k * inner (shape x) k)"
  unfolding well_shaped_def using prod_list_axis [of k "shape x"] by simp

lemma length_axis_block:
  assumes "well_shaped x" "k < length (shape x)" "i < outer (shape x) k"
  shows "length (block (shape x ! k * inner (shape x) k) (data x) i)
           = shape x ! k * inner (shape x) k"
proof -
  have "Suc i * (shape x ! k * inner (shape x) k)
      \<le> outer (shape x) k * (shape x ! k * inner (shape x) k)"
    using assms(3) by (intro mult_le_mono1) simp
  then show ?thesis
    using length_data_axis [OF assms(1,2)] by (intro length_block) simp
qed

lemma concat_axis_blocks:
  assumes "well_shaped x" "k < length (shape x)"
  shows "concat (map (block (shape x ! k * inner (shape x) k) (data x))
                     [0..<outer (shape x) k]) = data x"
  using length_data_axis [OF assms] by (intro concat_blocks) simp

lemma length_sub_block:
  assumes "length b = n * m" "j < n"
  shows "length (block m b j) = m"
proof -
  have "Suc j * m \<le> n * m" using assms(2) by (intro mult_le_mono1) simp
  then show ?thesis using assms(1) by (intro length_block) simp
qed

lemma split_part_data_length:
  assumes "well_shaped x" "k < length (shape x)" "shape x ! k = n * e'" "j < n"
  shows "length (data (split_part x k e' j)) = outer (shape x) k * (e' * inner (shape x) k)"
proof -
  let ?m = "e' * inner (shape x) k"
  have "\<forall>xs \<in> set (map (\<lambda>i. block ?m (block (shape x ! k * inner (shape x) k) (data x) i) j)
                  [0..<outer (shape x) k]). length xs = ?m"
  proof
    fix xs
    assume "xs \<in> set (map (\<lambda>i. block ?m (block (shape x ! k * inner (shape x) k) (data x) i) j)
                  [0..<outer (shape x) k])"
    then obtain i where i: "i < outer (shape x) k"
      and xs: "xs = block ?m (block (shape x ! k * inner (shape x) k) (data x) i) j"
      by auto
    have "length (block (shape x ! k * inner (shape x) k) (data x) i) = n * ?m"
      using length_axis_block [OF assms(1,2) i] assms(3) by (simp add: mult.assoc)
    then show "length xs = ?m" unfolding xs using assms(4) by (rule length_sub_block)
  qed
  from length_concat_const [OF this] show ?thesis
    by (simp add: split_part_def)
qed

lemma split_part_shape [simp]: "shape (split_part x k e' j) = (shape x)[k := e']"
  by (simp add: split_part_def)

lemma prod_list_update_axis:
  "k < length s \<Longrightarrow> prod_list (s[k := v]) = outer s k * (v * inner s k)"
  using prod_list_axis [of k "s[k := v]"] by simp

lemma split_part_well_shaped:
  assumes "well_shaped x" "k < length (shape x)" "shape x ! k = n * e'" "j < n"
  shows "well_shaped (split_part x k e' j)"
  unfolding well_shaped_def
  using split_part_data_length [OF assms] prod_list_update_axis [OF assms(2)]
  by simp

lemma split_part_block:
  assumes "well_shaped x" "k < length (shape x)" "shape x ! k = n * e'" "j < n"
    "i < outer (shape x) k"
  shows "block (e' * inner (shape x) k) (data (split_part x k e' j)) i
       = block (e' * inner (shape x) k) (block (shape x ! k * inner (shape x) k) (data x) i) j"
proof -
  let ?m = "e' * inner (shape x) k"
  let ?f = "\<lambda>i. block ?m (block (shape x ! k * inner (shape x) k) (data x) i) j"
  have len: "\<forall>xs \<in> set (map ?f [0..<outer (shape x) k]). length xs = ?m"
  proof
    fix xs
    assume "xs \<in> set (map ?f [0..<outer (shape x) k])"
    then obtain i where i: "i < outer (shape x) k" and xs: "xs = ?f i"
      by auto
    have "length (block (shape x ! k * inner (shape x) k) (data x) i) = n * ?m"
      using length_axis_block [OF assms(1,2) i] assms(3) by (simp add: mult.assoc)
    then show "length xs = ?m" unfolding xs using assms(4) by (rule length_sub_block)
  qed
  have "block ?m (concat (map ?f [0..<outer (shape x) k])) i = map ?f [0..<outer (shape x) k] ! i"
    using len assms(5) by (intro block_concat) simp_all
  then show ?thesis using assms(5) by (simp add: split_part_def)
qed

lemma np_split_ok:
  assumes "norm_axis axis (length (shape x)) = Inr k" "0 < n" "n dvd shape x ! k"
  shows "np_split x n axis = Inr (map (split_part x k (shape x ! k div n)) [0..<n])"
  using assms by (simp add: np_split_def mod_eq_0_iff_dvd)

lemma np_concatenate_unfold:
  assumes "xs = x # xs'" "norm_axis axis (length (shape x)) = Inr k"
    "list_all (\<lambda>u. length (shape u) = length (shape x)
                 \<and> (shape u)[k := 0] = (shape x)[k := 0]) xs"
  shows "np_concatenate xs axis =
     Inr \<lparr>shape = (shape x)[k := sum_list (map (\<lambda>u. shape u ! k) xs)],
          data = concat (map (\<lambda>i. concat (map (\<lambda>u.
                    block (shape u ! k * inner (shape x) k) (data u) i) xs))
                  [0..<outer (shape x) k])\<rparr>"
proof -
  have "np_concatenate xs axis =
    (if list_all (\<lambda>u. length (shape u) = length (shape x)
                 \<and> (shape u)[k := 0] = (shape x)[k := 0]) xs
     then Inr \<lparr>shape = (shape x)[k := sum_list (map (\<lambda>u. shape u ! k) xs)],
          data = concat (map (\<lambda>i. concat (map (\<lambda>u.
                    block (shape u ! k * inner (shape x) k) (data u) i) xs))
                  [0..<outer (shape x) k])\<rparr>
     else Inl ValueError)"
    unfolding np_concatenate_def assms(1) by (simp only: list.case assms(2) sum.case)
  then show ?thesis using assms(3) by (simp only: if_True)
qed

lemma np_concatenate_same:
  assumes "xs \<noteq> []" "\<forall>u \<in> set xs. shape u = s" "norm_axis axis (length s) = Inr k"
  shows "np_concatenate xs axis =
     Inr \<lparr>shape = s[k := length xs * s ! k],
          data = concat (map (\<lambda>i. concat (map (\<lambda>u. block (s ! k * inner s k) (data u) i) xs))
                             [0..<outer s k])\<rparr>"
proof -
  obtain x xs' where xs: "xs = x # xs'" using assms(1) by (cases xs) auto
  have sx: "shape x = s" using assms(2) xs by simp
  have all: "list_all (\<lambda>u. length (shape u) = length (shape x)
                 \<and> (shape u)[k := 0] = (shape x)[k := 0]) xs"
    using assms(2) sx by (simp add: list_all_iff)
  have sum: "sum_list (map (\<lambda>u. shape u ! k) xs) = length xs * s ! k"
    using assms(2) by (induction xs) auto
  have blk: "map (\<lambda>u. block (shape u ! k * inner s k) (data u) i) xs
           = map (\<lambda>u. block (s ! k * inner s k) (data u) i) xs" for i
    using assms(2) by (intro map_cong) auto
  have "np_concatenate xs axis =
     Inr \<lparr>shape = (shape x)[k := sum_list (map (\<lambda>u. shape u ! k) xs)],
          data = concat (map (\<lambda>i. concat (map (\<lambda>u.
                    block (shape u ! k * inner (shape x) k) (data u) i) xs))
                  [0..<outer (shape x) k])\<rparr>"
    using xs assms(3) all unfolding sx [symmetric] by (rule np_concatenate_unfold)
  then show ?thesis
    unfolding sx sum blk .
qed

lemma tensor_eqI: "shape a = shape b \<Longrightarrow> data a = data b \<Longrightarrow> a = (b :: 'a tensor)"
  by simp

lemma np_concatenate_split_parts:
  assumes ws: "well_shaped x" and ax: "norm_axis axis (length (shape x)) = Inr k"
    and n: "0 < n" and e: "shape x ! k = n * e'"
  shows "np_concatenate (map (split_part x k e') [0..<n]) axis = Inr x"
proof -
  let ?s = "shape x" and ?s' = "(shape x)[k := e']"
  let ?m = "e' * inner ?s k"
  let ?B = "block (?s ! k * inner ?s k) (data x)"
  have k: "k < length ?s" using ax by (rule norm_axis_lt)
  have ne: "map (split_part x k e') [0..<n] \<noteq> []" using n by simp
  have sh: "\<forall>u \<in> set (map (split_part x k e') [0..<n]). shape u = ?s'" by simp
  have ax': "norm_axis axis (length ?s') = Inr k" using ax by simp
  have row: "concat (map (\<lambda>u. block (?s' ! k * inner ?s' k) (data u) i)
                        (map (split_part x k e') [0..<n])) = ?B i"
    if i: "i < outer ?s k" for i
  proof -
    have "map (\<lambda>u. block (?s' ! k * inner ?s' k) (data u) i) (map (split_part x k e') [0..<n])
        = map (\<lambda>j. block ?m (data (split_part x k e' j)) i) [0..<n]"
      using k by (simp add: comp_def)
    also have "\<dots> = map (block ?m (?B i)) [0..<n]"
      using split_part_block [OF ws k e _ i] by (intro map_cong) auto
    finally have "concat (map (\<lambda>u. block (?s' ! k * inner ?s' k) (data u) i)
                        (map (split_part x k e') [0..<n]))
        = concat (map (block ?m (?B i)) [0..<n])" by (rule arg_cong)
    also have "\<dots> = ?B i"
      using length_axis_block [OF ws k i] e by (intro concat_blocks) (simp add: mult.assoc)
    finally show ?thesis .
  qed
  have "map (\<lambda>i. concat (map (\<lambda>u. block (?s' ! k * inner ?s' k) (data u) i)
                        (map (split_part x k e') [0..<n]))) [0..<outer ?s' k]
      = map ?B [0..<outer ?s k]"
    using row by (intro map_cong) auto
  then have "concat (map (\<lambda>i. concat (map (\<lambda>u. block (?s' ! k * inner ?s' k) (data u) i)
                        (map (split_part x k e') [0..<n]))) [0..<outer ?s' k])
      = concat (map ?B [0..<outer ?s k])" by (rule arg_cong)
  then have dat: "concat (map (\<lambda>i. concat (map (\<lambda>u. block (?s' ! k * inner ?s' k) (data u) i)
                        (map (split_part x k e') [0..<n]))) [0..<outer ?s' k]) = data x"
    unfolding concat_axis_blocks [OF ws k] .
  have shp: "?s'[k := length (map (split_part x k e') [0..<n]) * ?s' ! k] = ?s"
    using k e list_update_id [of ?s k] by simp
  show ?thesis
    unfolding np_concatenate_same [OF ne sh ax'] dat shp by simp
qed

lemma block_append_0: "length xs = m \<Longrightarrow> block m (xs @ ys) 0 = xs"
  by (simp add: block_def)

lemma block_append_1: "length xs = m \<Longrightarrow> length ys = m \<Longrightarrow> block m (xs @ ys) (Suc 0) = ys"
  by (simp add: block_def)

lemma np_split_concatenate_pair:
  assumes wa: "well_shaped a" and wb: "well_shaped b" and sab: "shape b = shape a"
    and ax: "norm_axis axis (length (shape a)) = Inr k"
  shows "\<exists>c. np_concatenate [a, b] axis = Inr c
           \<and> shape c = (shape a)[k := 2 * shape a ! k]
           \<and> well_shaped c
           \<and> np_split c 2 axis = Inr [a, b]"
proof -
  let ?s = "shape a"
  let ?e = "?s ! k"
  let ?m = "?e * inner ?s k"
  let ?A = "block ?m (data a)" and ?B = "block ?m (data b)"
  let ?c = "\<lparr>shape = ?s[k := 2 * ?e],
             data = concat (map (\<lambda>i. ?A i @ ?B i) [0..<outer ?s k])\<rparr>"
  have k: "k < length ?s" using ax by (rule norm_axis_lt)
  have kb: "k < length (shape b)" using k sab by simp
  have lenA: "length (?A i) = ?m" if "i < outer ?s k" for i
    using length_axis_block [OF wa k that] .
  have lenB: "length (?B i) = ?m" if "i < outer ?s k" for i
    using length_axis_block [OF wb kb] that unfolding sab by simp
  have "np_concatenate [a, b] axis =
     Inr \<lparr>shape = ?s[k := length [a, b] * ?s ! k],
          data = concat (map (\<lambda>i. concat (map (\<lambda>u. block (?s ! k * inner ?s k) (data u) i) [a, b]))
                             [0..<outer ?s k])\<rparr>"
    using sab ax by (intro np_concatenate_same) simp_all
  then have c: "np_concatenate [a, b] axis = Inr ?c" by (simp add: mult_2)
  have lens: "\<forall>xs \<in> set (map (\<lambda>i. ?A i @ ?B i) [0..<outer ?s k]). length xs = 2 * ?m"
    using lenA lenB by auto
  have lenc: "length (data ?c) = outer ?s k * (2 * ?m)"
    using length_concat_const [OF lens] by simp
  have wc: "well_shaped ?c"
    unfolding well_shaped_def using lenc prod_list_update_axis [OF k, of "2 * ?e"]
    by (simp add: mult.assoc)
  have blk: "block (2 * ?m) (data ?c) i = ?A i @ ?B i" if i: "i < outer ?s k" for i
  proof -
    have "block (2 * ?m) (concat (map (\<lambda>i. ?A i @ ?B i) [0..<outer ?s k])) i
        = map (\<lambda>i. ?A i @ ?B i) [0..<outer ?s k] ! i"
      using lens i by (intro block_concat) simp_all
    then show ?thesis using i by simp
  qed
  have p0: "split_part ?c k ?e 0 = a"
  proof (rule tensor_eqI)
    show "shape (split_part ?c k ?e 0) = shape a"
      using k list_update_id [of ?s k] by simp
    have "map (\<lambda>i. block ?m (block (2 * ?m) (data ?c) i) 0) [0..<outer ?s k]
        = map ?A [0..<outer ?s k]"
      using blk lenA by (intro map_cong) (auto simp: block_append_0)
    then have "concat (map (\<lambda>i. block ?m (block (2 * ?m) (data ?c) i) 0) [0..<outer ?s k])
        = concat (map ?A [0..<outer ?s k])" by (rule arg_cong)
    then show "data (split_part ?c k ?e 0) = data a"
      using k concat_axis_blocks [OF wa k] by (simp add: split_part_def mult.assoc)
  qed
  have p1: "split_part ?c k ?e (Suc 0) = b"
  proof (rule tensor_eqI)
    show "shape (split_part ?c k ?e (Suc 0)) = shape b"
      using k list_update_id [of ?s k] sab by simp
    have "map (\<lambda>i. block ?m (block (2 * ?m) (data ?c) i) (Suc 0)) [0..<outer ?s k]
        = map ?B [0..<outer ?s k]"
      using blk lenA lenB by (intro map_cong) (auto simp: block_append_1)
    then have "concat (map (\<lambda>i. block ?m (block (2 * ?m) (data ?c) i) (Suc 0)) [0..<outer ?s k])
        = concat (map ?B [0..<outer ?s k])" by (rule arg_cong)
    then show "data (split_part ?c k ?e (Suc 0)) = data b"
      using k concat_axis_blocks [OF wb kb] unfolding sab
      by (simp add: split_part_def mult.assoc)
  qed
  have ax': "norm_axis axis (length (shape ?c)) = Inr k" using ax by simp
  have "np_split ?c 2 axis = Inr (map (split_part ?c k (shape ?c ! k div 2)) [0..<2])"
    using ax' k by (intro np_split_ok) simp_all
  moreover have "shape ?c ! k div 2 = ?e" using k by simp
  moreover have "[0..<2] = [0, Suc 0]" by (simp add: upt_rec numeral_2_eq_2)
  ultimately have "np_split ?c 2 axis = Inr [a, b]"
    using p0 p1 by simp
  with c wc show ?thesis using k by (intro exI [of _ ?c]) simp
qed

lemma norm_axis_last: "0 < r \<Longrightarrow> norm_axis (- 1) r = Inr (r - 1)"
  by (auto simp: norm_axis_def nat_diff_distrib' of_nat_diff)

lemma SplitForOutput_forward_reverse:
  assumes w1: "well_shaped x1" and w2: "well_shaped x2" and sh: "shape x2 = shape x1"
    and ax: "norm_axis axis (length (shape x1)) = Inr k"
    and n: "0 < n" and dv: "n dvd shape x1 ! k"
  shows "\<exists>ys. SplitForOutput_forward n axis [x1, x2] = Inr ys
            \<and> length ys = n
            \<and> list_all (\<lambda>y. shape y =
                  ((shape x1)[k := shape x1 ! k div n])
                    [length (shape x1) - 1 :=
                       2 * ((shape x1)[k := shape x1 ! k div n]) ! (length (shape x1) - 1)]) ys
            \<and> SplitForOutput_reverse n axis ys = Inr [x1, x2]"
proof -
  let ?s = "shape x1"
  let ?e' = "?s ! k div n"
  let ?s' = "?s[k := ?e']"
  let ?l = "length ?s - 1"
  let ?a = "split_part x1 k ?e'" and ?b = "split_part x2 k ?e'"
  have k: "k < length ?s" using ax by (rule norm_axis_lt)
  have e: "?s ! k = n * ?e'" using dv by simp
  have e2: "shape x2 ! k = n * ?e'" using e sh by simp
  have k2: "k < length (shape x2)" using k sh by simp
  have ax2: "norm_axis axis (length (shape x2)) = Inr k" using ax sh by simp
  have s1: "np_split x1 n axis = Inr (map ?a [0..<n])"
    using ax n dv by (rule np_split_ok)
  have s2: "np_split x2 n axis = Inr (map ?b [0..<n])"
    using np_split_ok [OF ax2 n] dv sh by simp
  have "0 < length ?s" using k by (rule le_less_trans [OF le0])
  then have "norm_axis (- 1) (length ?s) = Inr ?l" by (rule norm_axis_last)
  then have last: "norm_axis (- 1) (length ?s') = Inr ?l" by simp
  have pair: "\<exists>c. np_concatenate [?a j, ?b j] (- 1) = Inr c
           \<and> shape c = (shape (?a j))[?l := 2 * shape (?a j) ! ?l]
           \<and> well_shaped c
           \<and> np_split c 2 (- 1) = Inr [?a j, ?b j]" if j: "j < n" for j
  proof (rule np_split_concatenate_pair)
    show "well_shaped (?a j)" using w1 k e j by (rule split_part_well_shaped)
    show "well_shaped (?b j)" using w2 k2 e2 j by (rule split_part_well_shaped)
    show "shape (?b j) = shape (?a j)" using sh by simp
    show "norm_axis (- 1) (length (shape (?a j))) = Inr ?l" using last by simp
  qed
  then have "\<forall>j. \<exists>c. j < n \<longrightarrow> np_concatenate [?a j, ?b j] (- 1) = Inr c
           \<and> shape c = (shape (?a j))[?l := 2 * shape (?a j) ! ?l]
           \<and> np_split c 2 (- 1) = Inr [?a j, ?b j]" by blast
  then obtain f where f: "\<And>j. j < n \<Longrightarrow> np_concatenate [?a j, ?b j] (- 1) = Inr (f j)"
      and fs: "\<And>j. j < n \<Longrightarrow> shape (f j) = (shape (?a j))[?l := 2 * shape (?a j) ! ?l]"
      and fb: "\<And>j. j < n \<Longrightarrow> np_split (f j) 2 (- 1) = Inr [?a j, ?b j]"
    by metis
  have "map (\<lambda>(a, b). np_concatenate [a, b] (- 1)) (zip (map ?a [0..<n]) (map ?b [0..<n]))
      = map (\<lambda>j. np_concatenate [?a j, ?b j] (- 1)) [0..<n]"
    by (simp add: zip_map_map zip_same_conv_map comp_def)
  also have "\<dots> = map (\<lambda>j. Inr (f j)) [0..<n]"
    using f by (intro map_cong) auto
  finally have "collect (map (\<lambda>(a, b). np_concatenate [a, b] (- 1))
                  (zip (map ?a [0..<n]) (map ?b [0..<n]))) = Inr (map f [0..<n])"
    by (simp only: collect_map_Inr)
  then have fw: "SplitForOutput_forward n axis [x1, x2] = Inr (map f [0..<n])"
    unfolding SplitForOutput_forward_def by (simp add: s1 s2)
  have "map (\<lambda>y. np_split y 2 (- 1)) (map f [0..<n]) = map (\<lambda>j. Inr [?a j, ?b j]) [0..<n]"
    using fb by (simp add: comp_def)
  then have hv: "collect (map (\<lambda>y. np_split y 2 (- 1)) (map f [0..<n]))
      = Inr (map (\<lambda>j. [?a j, ?b j]) [0..<n])"
    by (simp only: collect_map_Inr)
  have h0: "map (\<lambda>h. h ! 0) (map (\<lambda>j. [?a j, ?b j]) [0..<n]) = map ?a [0..<n]"
    by (simp add: comp_def)
  have h1: "map (\<lambda>h. h ! 1) (map (\<lambda>j. [?a j, ?b j]) [0..<n]) = map ?b [0..<n]"
    by (simp add: comp_def)
  have c1: "np_concatenate (map ?a [0..<n]) axis = Inr x1"
    using w1 ax n e by (rule np_concatenate_split_parts)
  have c2: "np_concatenate (map ?b [0..<n]) axis = Inr x2"
    using w2 ax2 n e2 by (rule np_concatenate_split_parts)
  have rv: "SplitForOutput_reverse n axis (map f [0..<n]) = Inr [x1, x2]"
    unfolding SplitForOutput_reverse_def hv by (simp only: sum.case h0 h1 c1 c2)
  have shp: "list_all (\<lambda>y. shape y = ?s'[?l := 2 * ?s' ! ?l]) (map f [0..<n])"
    using fs by (simp add: list_all_iff)
  show ?thesis
    using fw rv shp by (intro exI [of _ "map f [0..<n]"]) simp
qed

text \<open>
  C6. For every pair \<open>(x1, x2)\<close> of equal-shaped tensors, every valid split axis and
  every positive \<open>n_sections\<close> dividing the extent of that axis, the forward pass
  succeeds with \<open>n_sections\<close> tensors, each with the split axis cut to its
  \<open>n_sections\<close>-th part and the feature (last) axis doubled, and \<open>reverse\<close> applied to
  them returns \<open>(x1, x2)\<close> exactly. For shape \<open>[2, 8, 4]\<close>, \<open>n_sections = 2\<close> and
  \<open>axis = -2\<close> these are 2 tensors of shape \<open>[2, 4, 8]\<close>.
\<close>

theorem SplitForOutput_roundtrip:
  assumes w1: "well_shaped x1" and w2: "well_shaped x2" and sh: "shape x2 = shape x1"
    and ax: "norm_axis axis (length (shape x1)) = Inr k"
    and n: "0 < n" and dv: "n dvd shape x1 ! k"
  shows "\<exists>ys. SplitForOutput_forward n axis [x1, x2] = Inr ys
            \<and> length ys = n
            \<and> list_all (\<lambda>y. shape y =
                  ((shape x1)[k := shape x1 ! k div n])
                    [length (shape x1) - 1 :=
                       2 * ((shape x1)[k := shape x1 ! k div n]) ! (length (shape x1) - 1)]) ys
            \<and> SplitForOutput_reverse n axis ys = Inr [x1, x2]"
  using w1 w2 sh ax n dv by (rule SplitForOutput_forward_reverse)

theorem SplitForOutput_roundtrip_witness:
  "well_shaped \<lparr>shape = [2, 8, 4], data = map int [0..<64]\<rparr>
   \<and> well_shaped \<lparr>shape = [2, 8, 4], data = map (\<lambda>i. int i + 100) [0..<64]\<rparr>
   \<and> norm_axis (- 2) 3 = Inr 1
   \<and> (2 :: nat) dvd 8
   \<and> (\<exists>ys. SplitForOutput_forward 2 (- 2)
              [\<lparr>shape = [2, 8, 4], data = map int [0..<64]\<rparr>,
               \<lparr>shape = [2, 8, 4], data = map (\<lambda>i. int i + 100) [0..<64]\<rparr>] = Inr ys
          \<and> length ys = 2
          \<and> list_all (\<lambda>y. shape y = [2, 4, 8]) ys
          \<and> SplitForOutput_reverse 2 (- 2) ys
              = Inr [\<lparr>shape = [2, 8, 4], data = map int [0..<64]\<rparr>,
                     \<lparr>shape = [2, 8, 4], data = map (\<lambda>i. int i + 100) [0..<64]\<rparr>])"
proof -
  let ?x1 = "\<lparr>shape = [2, 8, 4], data = map int [0..<64]\<rparr>"
  let ?x2 = "\<lparr>shape = [2, 8, 4], data = map (\<lambda>i. int i + 100) [0..<64]\<rparr>"
  have w1: "well_shaped ?x1" by (simp add: well_shaped_def)
  have w2: "well_shaped ?x2" by (simp add: well_shaped_def)
  have sh: "shape ?x2 = shape ?x1" by simp
  have a: "norm_axis (- 2) 3 = Inr 1" by (simp add: norm_axis_def)
  have ax: "norm_axis (- 2) (length (shape ?x1)) = Inr 1" by (simp add: norm_axis_def)
  have n: "(0::nat) < 2" by simp
  have dv: "(2::nat) dvd shape ?x1 ! 1" by simp
  from SplitForOutput_roundtrip [OF w1 w2 sh ax n dv] w1 w2 a
  show ?thesis by simp
qed

section \<open>The gradient of SplitForOutput\<close>

lemma dot_append:
  "length xs = length ys \<Longrightarrow> dot (xs @ xs') (ys @ ys') = dot xs ys + dot xs' ys'"
  by (simp add: dot_def)

lemma length_concat_pointwise:
  "(\<And>i. i < n \<Longrightarrow> length (f i) = length (g i)) \<Longrightarrow>
   length (concat (map f [0..<n])) = length (concat (map g [0..<n]))"
  by (induction n) simp_all

lemma dot_concat:
  "(\<And>i. i < n \<Longrightarrow> length (f i) = length (g i)) \<Longrightarrow>
   dot (concat (map f [0..<n])) (concat (map g [0..<n])) = (\<Sum>i<n. dot (f i) (g i))"
proof (induction n)
  case 0
  then show ?case by (simp add: dot_def)
next
  case (Suc n)
  have l: "length (concat (map f [0..<n])) = length (concat (map g [0..<n]))"
    using Suc.prems by (intro length_concat_pointwise) simp
  have "dot (concat (map f [0..<n])) (concat (map g [0..<n])) = (\<Sum>i<n. dot (f i) (g i))"
    using Suc.prems by (intro Suc.IH) simp
  then show ?case using l by (simp add: dot_append)
qed

lemma pairing_map:
  "pairing (map f [0..<n]) (map g [0..<n]) = (\<Sum>j<n. dot (data (f j)) (data (g j)))"
proof -
  have "map2 (\<lambda>x c. dot (data x) (data c)) (map f [0..<n]) (map g [0..<n])
      = map (\<lambda>j. dot (data (f j)) (data (g j))) [0..<n]"
    by (simp add: zip_map_map zip_same_conv_map comp_def)
  then show ?thesis
    by (simp add: pairing_def sum_list_sum_nth atLeast0LessThan)
qed

lemma dot_split_concat:
  assumes ws: "well_shaped x" and ax: "norm_axis axis (length (shape x)) = Inr k"
    and n: "0 < n" and e: "shape x ! k = n * e'"
    and ps: "\<And>j. j < n \<Longrightarrow> well_shaped (p j) \<and> shape (p j) = (shape x)[k := e']"
  shows "\<exists>c. np_concatenate (map p [0..<n]) axis = Inr c \<and> shape c = shape x
           \<and> well_shaped c
           \<and> (\<Sum>j<n. dot (data (split_part x k e' j)) (data (p j))) = dot (data x) (data c)"
proof -
  let ?s = "shape x" and ?s' = "(shape x)[k := e']"
  let ?o = "outer ?s k"
  let ?m = "e' * inner ?s k"
  let ?X = "\<lambda>i. block (?s ! k * inner ?s k) (data x) i"
  let ?P = "\<lambda>j i. block ?m (data (p j)) i"
  let ?D = "concat (map (\<lambda>i. concat (map (\<lambda>j. ?P j i) [0..<n])) [0..<?o])"
  let ?c = "\<lparr>shape = ?s, data = ?D\<rparr>"
  have k: "k < length ?s" using ax by (rule norm_axis_lt)
  have ne: "map p [0..<n] \<noteq> []" using n by simp
  have sh: "\<forall>u \<in> set (map p [0..<n]). shape u = ?s'" using ps by auto
  have ax': "norm_axis axis (length ?s') = Inr k" using ax by simp
  have shp: "?s'[k := length (map p [0..<n]) * ?s' ! k] = ?s"
    using k e list_update_id [of ?s k] by simp
  have "np_concatenate (map p [0..<n]) axis =
     Inr \<lparr>shape = ?s'[k := length (map p [0..<n]) * ?s' ! k],
          data = concat (map (\<lambda>i. concat (map (\<lambda>u. block (?s' ! k * inner ?s' k) (data u) i)
                                              (map p [0..<n])))
                             [0..<outer ?s' k])\<rparr>"
    using ne sh ax' by (rule np_concatenate_same)
  then have c: "np_concatenate (map p [0..<n]) axis = Inr ?c"
    unfolding shp using k by (simp add: comp_def)
  have lenP: "length (?P j i) = ?m" if "j < n" "i < ?o" for j i
  proof -
    have "length (block ((shape (p j)) ! k * inner (shape (p j)) k) (data (p j)) i)
        = (shape (p j)) ! k * inner (shape (p j)) k"
      using ps [OF that(1)] k that(2) by (intro length_axis_block) simp_all
    then show ?thesis using ps [OF that(1)] k by simp
  qed
  have lenX: "length (?X i) = n * ?m" if "i < ?o" for i
    using length_axis_block [OF ws k that] e by (simp add: mult.assoc)
  have lenXij: "length (block ?m (?X i) j) = ?m" if "i < ?o" "j < n" for i j
    using lenX [OF that(1)] that(2) by (rule length_sub_block)
  have lenrow: "length (concat (map (\<lambda>j. ?P j i) [0..<n])) = n * ?m" if "i < ?o" for i
  proof -
    have "\<forall>xs \<in> set (map (\<lambda>j. ?P j i) [0..<n]). length xs = ?m"
      using lenP that by auto
    from length_concat_const [OF this] show ?thesis by simp
  qed
  have "length ?D = ?o * (n * ?m)"
  proof -
    have "\<forall>xs \<in> set (map (\<lambda>i. concat (map (\<lambda>j. ?P j i) [0..<n])) [0..<?o]).
            length xs = n * ?m"
      using lenrow by auto
    from length_concat_const [OF this] show ?thesis by simp
  qed
  then have wc: "well_shaped ?c"
    unfolding well_shaped_def using prod_list_axis [OF k] e by (simp add: mult.assoc)
  have left: "dot (data (split_part x k e' j)) (data (p j))
      = (\<Sum>i<?o. dot (block ?m (?X i) j) (?P j i))" if j: "j < n" for j
  proof -
    have kp: "k < length (shape (p j))" using ps [OF j] k by simp
    have "concat (map (block (shape (p j) ! k * inner (shape (p j)) k) (data (p j)))
                     [0..<outer (shape (p j)) k]) = data (p j)"
      using ps [OF j] kp by (intro concat_axis_blocks) simp_all
    then have dp: "data (p j) = concat (map (\<lambda>i. ?P j i) [0..<?o])"
      using ps [OF j] k by simp
    have "dot (data (split_part x k e' j)) (data (p j))
        = dot (concat (map (\<lambda>i. block ?m (?X i) j) [0..<?o]))
              (concat (map (\<lambda>i. ?P j i) [0..<?o]))"
      using dp by (simp add: split_part_def)
    also have "\<dots> = (\<Sum>i<?o. dot (block ?m (?X i) j) (?P j i))"
      using lenXij lenP j by (intro dot_concat) simp
    finally show ?thesis .
  qed
  have right: "dot (data x) ?D = (\<Sum>i<?o. \<Sum>j<n. dot (block ?m (?X i) j) (?P j i))"
  proof -
    have "data x = concat (map ?X [0..<?o])"
      using concat_axis_blocks [OF ws k] by simp
    then have "dot (data x) ?D = dot (concat (map ?X [0..<?o])) ?D" by simp
    also have "\<dots> = (\<Sum>i<?o. dot (?X i) (concat (map (\<lambda>j. ?P j i) [0..<n])))"
      using lenX lenrow by (intro dot_concat) simp
    also have "\<dots> = (\<Sum>i<?o. \<Sum>j<n. dot (block ?m (?X i) j) (?P j i))"
    proof (intro sum.cong refl)
      fix i assume "i \<in> {..<?o}"
      then have i: "i < ?o" by simp
      have "concat (map (block ?m (?X i)) [0..<n]) = ?X i"
        using lenX [OF i] by (intro concat_blocks) simp
      then have "dot (?X i) (concat (map (\<lambda>j. ?P j i) [0..<n]))
          = dot (concat (map (block ?m (?X i)) [0..<n])) (concat (map (\<lambda>j. ?P j i) [0..<n]))"
        by simp
      also have "\<dots> = (\<Sum>j<n. dot (block ?m (?X i) j) (?P j i))"
        using lenXij [OF i] lenP i by (intro dot_concat) simp
      finally show "dot (?X i) (concat (map (\<lambda>j. ?P j i) [0..<n]))
          = (\<Sum>j<n. dot (block ?m (?X i) j) (?P j i))" .
    qed
    finally show ?thesis .
  qed
  have "(\<Sum>j<n. dot (data (split_part x k e' j)) (data (p j)))
      = (\<Sum>j<n. \<Sum>i<?o. dot (block ?m (?X i) j) (?P j i))"
    using left by (intro sum.cong refl) simp
  also have "\<dots> = (\<Sum>i<?o. \<Sum>j<n. dot (block ?m (?X i) j) (?P j i))"
    by (rule sum.swap)
  also have "\<dots> = dot (data x) ?D" using right by simp
  finally have "(\<Sum>j<n. dot (data (split_part x k e' j)) (data (p j))) = dot (data x) (data ?c)"
    by simp
  with c wc show ?thesis by (intro exI [of _ ?c]) simp
qed

lemma dot_commute: "dot xs ys = dot ys (xs :: 'a::comm_semiring_0 list)"
proof -
  have "map2 (*) xs ys = map2 (*) ys xs"
  proof (induction xs arbitrary: ys)
    case Nil
    then show ?case by simp
  next
    case (Cons a xs)
    then show ?case by (cases ys) (simp_all add: mult.commute)
  qed
  then show ?thesis by (simp add: dot_def)
qed

lemma collect_Inr: "collect rs = Inr vs \<Longrightarrow> rs = map Inr vs"
proof (induction rs arbitrary: vs)
  case Nil
  then show ?case by simp
next
  case (Cons r rs)
  then show ?case by (cases r) (auto split: sum.splits)
qed

lemma SplitForOutput_forward_parts:
  assumes ax: "norm_axis axis (length (shape x1)) = Inr k" and sh: "shape x2 = shape x1"
    and n: "0 < n" and dv: "n dvd shape x1 ! k"
    and fw: "SplitForOutput_forward n axis [x1, x2] = Inr ys"
  shows "length ys = n"
    and "\<And>j. j < n \<Longrightarrow>
          np_concatenate [split_part x1 k (shape x1 ! k div n) j,
                          split_part x2 k (shape x1 ! k div n) j] (- 1) = Inr (ys ! j)"
proof -
  let ?e' = "shape x1 ! k div n"
  let ?a = "split_part x1 k ?e'" and ?b = "split_part x2 k ?e'"
  have ax2: "norm_axis axis (length (shape x2)) = Inr k" using ax sh by simp
  have s1: "np_split x1 n axis = Inr (map ?a [0..<n])"
    using ax n dv by (rule np_split_ok)
  have s2: "np_split x2 n axis = Inr (map ?b [0..<n])"
    using np_split_ok [OF ax2 n] dv sh by simp
  have "map (\<lambda>(a, b). np_concatenate [a, b] (- 1)) (zip (map ?a [0..<n]) (map ?b [0..<n]))
      = map (\<lambda>j. np_concatenate [?a j, ?b j] (- 1)) [0..<n]"
    by (simp add: zip_map_map zip_same_conv_map comp_def)
  then have "collect (map (\<lambda>j. np_concatenate [?a j, ?b j] (- 1)) [0..<n]) = Inr ys"
    using fw unfolding SplitForOutput_forward_def by (simp add: s1 s2)
  then have m: "map (\<lambda>j. np_concatenate [?a j, ?b j] (- 1)) [0..<n] = map Inr ys"
    by (rule collect_Inr)
  then have "length (map (\<lambda>j. np_concatenate [?a j, ?b j] (- 1)) [0..<n]) = length (map Inr ys)"
    by simp
  then show l: "length ys = n" by simp
  fix j assume j: "j < n"
  have "map (\<lambda>j. np_concatenate [?a j, ?b j] (- 1)) [0..<n] ! j = map Inr ys ! j"
    using m by simp
  then show "np_concatenate [?a j, ?b j] (- 1) = Inr (ys ! j)"
    using j l by simp
qed

lemma SplitForOutput_reverse_adjoint:
  fixes x1 x2 :: "'a::comm_semiring_0 tensor"
  assumes w1: "well_shaped x1" and w2: "well_shaped x2" and sh: "shape x2 = shape x1"
    and ax: "norm_axis axis (length (shape x1)) = Inr k"
    and n: "0 < n" and dv: "n dvd shape x1 ! k"
    and fw: "SplitForOutput_forward n axis [x1, x2] = Inr ys"
    and lc: "length ct = n"
    and cs: "list_all (\<lambda>c. well_shaped c \<and> shape c =
                  ((shape x1)[k := shape x1 ! k div n])
                    [length (shape x1) - 1 :=
                       2 * ((shape x1)[k := shape x1 ! k div n]) ! (length (shape x1) - 1)]) ct"
  shows "\<exists>g. SplitForOutput_reverse n axis ct = Inr g \<and> length g = 2
           \<and> pairing ys ct = pairing [x1, x2] g"
proof -
  let ?s = "shape x1"
  let ?e' = "?s ! k div n"
  let ?s' = "?s[k := ?e']"
  let ?l = "length ?s - 1"
  let ?m = "?s' ! ?l"
  let ?out = "?s'[?l := 2 * ?m]"
  let ?a = "split_part x1 k ?e'" and ?b = "split_part x2 k ?e'"
  let ?p = "\<lambda>j. split_part (ct ! j) ?l ?m 0" and ?q = "\<lambda>j. split_part (ct ! j) ?l ?m (Suc 0)"
  have k: "k < length ?s" using ax by (rule norm_axis_lt)
  have e: "?s ! k = n * ?e'" using dv by simp
  have e2: "shape x2 ! k = n * ?e'" using e sh by simp
  have k2: "k < length (shape x2)" using k sh by simp
  have ax2: "norm_axis axis (length (shape x2)) = Inr k" using ax sh by simp
  have l: "?l < length ?s" using k by simp
  have "0 < length ?s" using k by (rule le_less_trans [OF le0])
  then have last: "norm_axis (- 1) (length ?s) = Inr ?l" by (rule norm_axis_last)
  have c: "well_shaped (ct ! j)" "shape (ct ! j) = ?out" if "j < n" for j
    using cs lc that by (simp_all add: list_all_length)
  have l': "?l < length ?s'" using l by (simp only: length_list_update)
  have outl: "?out ! ?l = 2 * ?m" using l' by (rule nth_list_update_eq)
  have outs: "?out[?l := ?m] = ?s'"
    by (simp only: list_update_overwrite list_update_id)
  have ol: "shape (ct ! j) ! ?l = 2 * ?m" if "j < n" for j
    using c(2) [OF that] outl by (simp only:)
  have os: "(shape (ct ! j))[?l := ?m] = ?s'" if "j < n" for j
    using c(2) [OF that] outs by (simp only:)
  have lo: "?l < length (shape (ct ! j))" if "j < n" for j using c(2) [OF that] l by simp
  have lasto: "norm_axis (- 1) (length (shape (ct ! j))) = Inr ?l" if "j < n" for j
    using c(2) [OF that] last by simp
  have pw: "well_shaped (?p j)" "shape (?p j) = ?s'" if j: "j < n" for j
  proof -
    show "well_shaped (?p j)"
      using c(1) [OF j] lo [OF j] ol [OF j] by (rule split_part_well_shaped) simp
    show "shape (?p j) = ?s'" using os [OF j] by (simp only: split_part_shape)
  qed
  have qw: "well_shaped (?q j)" "shape (?q j) = ?s'" if j: "j < n" for j
  proof -
    show "well_shaped (?q j)"
      using c(1) [OF j] lo [OF j] ol [OF j] by (rule split_part_well_shaped) simp
    show "shape (?q j) = ?s'" using os [OF j] by (simp only: split_part_shape)
  qed
  have sp: "np_split (ct ! j) 2 (- 1) = Inr [?p j, ?q j]" if j: "j < n" for j
  proof -
    have "np_split (ct ! j) 2 (- 1)
        = Inr (map (split_part (ct ! j) ?l (shape (ct ! j) ! ?l div 2)) [0..<2])"
      using lasto [OF j] by (rule np_split_ok) (use ol [OF j] in simp_all)
    moreover have "shape (ct ! j) ! ?l div 2 = ?m" using ol [OF j] by simp
    moreover have "[0..<2] = [0, Suc 0]" by (simp add: upt_rec numeral_2_eq_2)
    ultimately show ?thesis by simp
  qed
  have ctn: "ct = map (\<lambda>j. ct ! j) [0..<n]"
    using map_nth [of ct] lc by simp
  have "map (\<lambda>y. np_split y 2 (- 1)) (map (\<lambda>j. ct ! j) [0..<n])
      = map (\<lambda>j. Inr [?p j, ?q j]) [0..<n]"
    using sp by (simp add: comp_def)
  then have "collect (map (\<lambda>y. np_split y 2 (- 1)) (map (\<lambda>j. ct ! j) [0..<n]))
      = Inr (map (\<lambda>j. [?p j, ?q j]) [0..<n])"
    by (simp only: collect_map_Inr)
  then have hv: "collect (map (\<lambda>y. np_split y 2 (- 1)) ct)
      = Inr (map (\<lambda>j. [?p j, ?q j]) [0..<n])"
    using ctn by simp
  have h0: "map (\<lambda>h. h ! 0) (map (\<lambda>j. [?p j, ?q j]) [0..<n]) = map ?p [0..<n]"
    by (simp add: comp_def)
  have h1: "map (\<lambda>h. h ! 1) (map (\<lambda>j. [?p j, ?q j]) [0..<n]) = map ?q [0..<n]"
    by (simp add: comp_def)
  obtain g1 where g1: "np_concatenate (map ?p [0..<n]) axis = Inr g1"
    and d1: "(\<Sum>j<n. dot (data (?a j)) (data (?p j))) = dot (data x1) (data g1)"
    using dot_split_concat [OF w1 ax n e, of ?p] pw by blast
  have qw2: "well_shaped (?q j) \<and> shape (?q j) = (shape x2)[k := ?e']" if "j < n" for j
    using qw [OF that] sh by simp
  obtain g2 where g2: "np_concatenate (map ?q [0..<n]) axis = Inr g2"
    and d2: "(\<Sum>j<n. dot (data (?b j)) (data (?q j))) = dot (data x2) (data g2)"
    using dot_split_concat [OF w2 ax2 n e2, of ?q] qw2 by blast
  have rv: "SplitForOutput_reverse n axis ct = Inr [g1, g2]"
    unfolding SplitForOutput_reverse_def hv by (simp only: sum.case h0 h1 g1 g2)
  have ly: "length ys = n" using ax sh n dv fw by (rule SplitForOutput_forward_parts(1))
  have yj: "np_concatenate [?a j, ?b j] (- 1) = Inr (ys ! j)" if "j < n" for j
    using SplitForOutput_forward_parts(2) [OF ax sh n dv fw that] .
  have each: "dot (data (ys ! j)) (data (ct ! j))
      = dot (data (?a j)) (data (?p j)) + dot (data (?b j)) (data (?q j))" if j: "j < n" for j
  proof -
    let ?ab = "\<lambda>i. [?a j, ?b j] ! i"
    have aw: "well_shaped (?a j)" using w1 k e j by (rule split_part_well_shaped)
    have bw: "well_shaped (?b j)" using w2 k2 e2 j by (rule split_part_well_shaped)
    have ab: "well_shaped (?ab i) \<and> shape (?ab i) = (shape (ct ! j))[?l := ?m]" if "i < 2" for i
    proof -
      have "i = 0 \<or> i = 1" using that by auto
      then show ?thesis using aw bw sh os [OF j] by auto
    qed
    have "map ?ab [0..<2] = [?a j, ?b j]" by (simp add: upt_rec numeral_2_eq_2)
    moreover obtain cc where "np_concatenate (map ?ab [0..<2]) (- 1) = Inr cc"
      and "(\<Sum>i<2. dot (data (split_part (ct ! j) ?l ?m i)) (data (?ab i)))
             = dot (data (ct ! j)) (data cc)"
      using dot_split_concat [OF c(1) [OF j] lasto [OF j] _ ol [OF j], of ?ab] ab
      by auto
    ultimately have "dot (data (ct ! j)) (data (ys ! j))
        = (\<Sum>i<2. dot (data (split_part (ct ! j) ?l ?m i)) (data (?ab i)))"
      using yj [OF j] by simp
    also have "\<dots> = dot (data (?p j)) (data (?a j)) + dot (data (?q j)) (data (?b j))"
      by (simp add: numeral_2_eq_2)
    finally show ?thesis by (simp add: dot_commute)
  qed
  have "pairing ys ct = pairing (map (\<lambda>j. ys ! j) [0..<n]) (map (\<lambda>j. ct ! j) [0..<n])"
    using map_nth [of ys] map_nth [of ct] ly lc by simp
  also have "\<dots> = (\<Sum>j<n. dot (data (ys ! j)) (data (ct ! j)))"
    by (rule pairing_map)
  also have "\<dots> = (\<Sum>j<n. dot (data (?a j)) (data (?p j)) + dot (data (?b j)) (data (?q j)))"
    using each by (intro sum.cong refl) simp
  also have "\<dots> = dot (data x1) (data g1) + dot (data x2) (data g2)"
    using d1 d2 by (simp add: sum.distrib)
  also have "\<dots> = pairing [x1, x2] [g1, g2]" by (simp add: pairing_def)
  finally show ?thesis using rv by (intro exI [of _ "[g1, g2]"]) simp
qed

text \<open>
  C10. For every output tuple and cotangent tuple, \<open>reverse_and_grad\<close> returns
  \<open>(reverse output, (reverse ct, ()))\<close>, an error of either \<open>reverse\<close> being its error.
  That \<open>reverse ct\<close> is the input gradient of the forward pass is the adjoint identity:
  for a valid input pair \<open>(x1, x2)\<close> with forward output \<open>ys\<close>, and every cotangent tuple
  \<open>ct\<close> of the output's shapes, \<open>reverse ct\<close> succeeds with a pair \<open>g\<close>,
  \<open>reverse_and_grad ys ct\<close> is \<open>((x1, x2), (g, ()))\<close>, and the pairing of \<open>ys\<close> with \<open>ct\<close>
  equals the pairing of \<open>(x1, x2)\<close> with \<open>g\<close>. The weight gradient is the empty tuple.
\<close>

theorem SplitForOutput_reverse_and_grad_spec:
  fixes x1 x2 :: "'a::comm_semiring_0 tensor"
  shows
  "SplitForOutput_reverse_and_grad n axis out ct =
     (case SplitForOutput_reverse n axis out of
        Inl e \<Rightarrow> Inl e
      | Inr x \<Rightarrow>
          (case SplitForOutput_reverse n axis ct of
             Inl e \<Rightarrow> Inl e
           | Inr x_ct \<Rightarrow> Inr (x, (x_ct, []))))
   \<and> (well_shaped x1 \<and> well_shaped x2 \<and> shape x2 = shape x1
        \<and> norm_axis axis (length (shape x1)) = Inr k \<and> 0 < n \<and> n dvd shape x1 ! k
        \<and> SplitForOutput_forward n axis [x1, x2] = Inr ys
        \<and> length ct' = n
        \<and> list_all (\<lambda>c. well_shaped c \<and> shape c =
                  ((shape x1)[k := shape x1 ! k div n])
                    [length (shape x1) - 1 :=
                       2 * ((shape x1)[k := shape x1 ! k div n]) ! (length (shape x1) - 1)]) ct'
      \<longrightarrow> (\<exists>g. SplitForOutput_reverse n axis ct' = Inr g
                \<and> SplitForOutput_reverse_and_grad n axis ys ct' = Inr ([x1, x2], (g, []))
                \<and> pairing ys ct' = pairing [x1, x2] g))"
proof (intro conjI impI)
  show "SplitForOutput_reverse_and_grad n axis out ct =
     (case SplitForOutput_reverse n axis out of
        Inl e \<Rightarrow> Inl e
      | Inr x \<Rightarrow>
          (case SplitForOutput_reverse n axis ct of
             Inl e \<Rightarrow> Inl e
           | Inr x_ct \<Rightarrow> Inr (x, (x_ct, []))))"
    by (simp add: SplitForOutput_reverse_and_grad_def)
next
  assume h: "well_shaped x1 \<and> well_shaped x2 \<and> shape x2 = shape x1
        \<and> norm_axis axis (length (shape x1)) = Inr k \<and> 0 < n \<and> n dvd shape x1 ! k
        \<and> SplitForOutput_forward n axis [x1, x2] = Inr ys
        \<and> length ct' = n
        \<and> list_all (\<lambda>c. well_shaped c \<and> shape c =
                  ((shape x1)[k := shape x1 ! k div n])
                    [length (shape x1) - 1 :=
                       2 * ((shape x1)[k := shape x1 ! k div n]) ! (length (shape x1) - 1)]) ct'"
  then have w1: "well_shaped x1" and w2: "well_shaped x2" and sh: "shape x2 = shape x1"
    and ax: "norm_axis axis (length (shape x1)) = Inr k" and n: "0 < n"
    and dv: "n dvd shape x1 ! k" and fw: "SplitForOutput_forward n axis [x1, x2] = Inr ys"
    and lc: "length ct' = n"
    and cs: "list_all (\<lambda>c. well_shaped c \<and> shape c =
                  ((shape x1)[k := shape x1 ! k div n])
                    [length (shape x1) - 1 :=
                       2 * ((shape x1)[k := shape x1 ! k div n]) ! (length (shape x1) - 1)]) ct'"
    by simp_all
  obtain g where g: "SplitForOutput_reverse n axis ct' = Inr g"
    and p: "pairing ys ct' = pairing [x1, x2] g"
    using SplitForOutput_reverse_adjoint [OF w1 w2 sh ax n dv fw lc cs] by blast
  have "SplitForOutput_reverse n axis ys = Inr [x1, x2]"
    using SplitForOutput_forward_reverse [OF w1 w2 sh ax n dv] fw by auto
  then have "SplitForOutput_reverse_and_grad n axis ys ct' = Inr ([x1, x2], (g, []))"
    using g by (simp add: SplitForOutput_reverse_and_grad_def)
  with g p show "\<exists>g. SplitForOutput_reverse n axis ct' = Inr g
                \<and> SplitForOutput_reverse_and_grad n axis ys ct' = Inr ([x1, x2], (g, []))
                \<and> pairing ys ct' = pairing [x1, x2] g"
    by blast
qed

theorem SplitForOutput_reverse_and_grad_spec_witness:
  "SplitForOutput_forward 2 (- 2)
     [\<lparr>shape = [1, 4, 2], data = [1, 2, 3, 4, 5, 6, 7, 8 :: int]\<rparr>,
      \<lparr>shape = [1, 4, 2], data = [11, 12, 13, 14, 15, 16, 17, 18]\<rparr>]
   = Inr [\<lparr>shape = [1, 2, 4], data = [1, 2, 11, 12, 3, 4, 13, 14]\<rparr>,
          \<lparr>shape = [1, 2, 4], data = [5, 6, 15, 16, 7, 8, 17, 18]\<rparr>]
   \<and> SplitForOutput_reverse_and_grad 2 (- 2)
       [\<lparr>shape = [1, 2, 4], data = [1, 2, 11, 12, 3, 4, 13, 14 :: int]\<rparr>,
        \<lparr>shape = [1, 2, 4], data = [5, 6, 15, 16, 7, 8, 17, 18]\<rparr>]
       [\<lparr>shape = [1, 2, 4], data = [1, 0, 0, 2, 0, 0, 0, 0]\<rparr>,
        \<lparr>shape = [1, 2, 4], data = [0, 3, 0, 0, 0, 0, 4, 0]\<rparr>]
     = Inr ([\<lparr>shape = [1, 4, 2], data = [1, 2, 3, 4, 5, 6, 7, 8]\<rparr>,
             \<lparr>shape = [1, 4, 2], data = [11, 12, 13, 14, 15, 16, 17, 18]\<rparr>],
            ([\<lparr>shape = [1, 4, 2], data = [1, 0, 0, 0, 0, 3, 0, 0]\<rparr>,
              \<lparr>shape = [1, 4, 2], data = [0, 2, 0, 0, 0, 0, 4, 0]\<rparr>], []))
   \<and> pairing
       [\<lparr>shape = [1, 2, 4], data = [1, 2, 11, 12, 3, 4, 13, 14 :: int]\<rparr>,
        \<lparr>shape = [1, 2, 4], data = [5, 6, 15, 16, 7, 8, 17, 18]\<rparr>]
       [\<lparr>shape = [1, 2, 4], data = [1, 0, 0, 2, 0, 0, 0, 0]\<rparr>,
        \<lparr>shape = [1, 2, 4], data = [0, 3, 0, 0, 0, 0, 4, 0]\<rparr>]
     = pairing
       [\<lparr>shape = [1, 4, 2], data = [1, 2, 3, 4, 5, 6, 7, 8 :: int]\<rparr>,
        \<lparr>shape = [1, 4, 2], data = [11, 12, 13, 14, 15, 16, 17, 18]\<rparr>]
       [\<lparr>shape = [1, 4, 2], data = [1, 0, 0, 0, 0, 3, 0, 0]\<rparr>,
        \<lparr>shape = [1, 4, 2], data = [0, 2, 0, 0, 0, 0, 4, 0]\<rparr>]"
proof -
  let ?x1 = "\<lparr>shape = [1, 4, 2], data = [1, 2, 3, 4, 5, 6, 7, 8 :: int]\<rparr>"
  let ?x2 = "\<lparr>shape = [1, 4, 2], data = [11, 12, 13, 14, 15, 16, 17, 18 :: int]\<rparr>"
  let ?ys = "[\<lparr>shape = [1, 2, 4], data = [1, 2, 11, 12, 3, 4, 13, 14 :: int]\<rparr>,
              \<lparr>shape = [1, 2, 4], data = [5, 6, 15, 16, 7, 8, 17, 18]\<rparr>]"
  let ?ct = "[\<lparr>shape = [1, 2, 4], data = [1, 0, 0, 2, 0, 0, 0, 0 :: int]\<rparr>,
              \<lparr>shape = [1, 2, 4], data = [0, 3, 0, 0, 0, 0, 4, 0]\<rparr>]"
  let ?g = "[\<lparr>shape = [1, 4, 2], data = [1, 0, 0, 0, 0, 3, 0, 0 :: int]\<rparr>,
             \<lparr>shape = [1, 4, 2], data = [0, 2, 0, 0, 0, 0, 4, 0]\<rparr>]"
  have fw: "SplitForOutput_forward 2 (- 2) [?x1, ?x2] = Inr ?ys" by code_simp
  have rc: "SplitForOutput_reverse 2 (- 2) ?ct = Inr ?g" by code_simp
  have hyp: "well_shaped ?x1 \<and> well_shaped ?x2 \<and> shape ?x2 = shape ?x1
        \<and> norm_axis (- 2) (length (shape ?x1)) = Inr 1 \<and> (0::nat) < 2 \<and> 2 dvd shape ?x1 ! 1
        \<and> SplitForOutput_forward 2 (- 2) [?x1, ?x2] = Inr ?ys
        \<and> length ?ct = 2
        \<and> list_all (\<lambda>c. well_shaped c \<and> shape c =
                  ((shape ?x1)[1 := shape ?x1 ! 1 div 2])
                    [length (shape ?x1) - 1 :=
                       2 * ((shape ?x1)[1 := shape ?x1 ! 1 div 2]) ! (length (shape ?x1) - 1)]) ?ct"
    using fw by (simp add: well_shaped_def norm_axis_def)
  from SplitForOutput_reverse_and_grad_spec
    [where ?x1.0 = ?x1 and ?x2.0 = ?x2 and axis = "- 2" and k = 1 and n = 2 and ys = ?ys
       and ct' = ?ct, THEN conjunct2, rule_format, OF hyp]
  obtain g where "SplitForOutput_reverse 2 (- 2) ?ct = Inr g"
    and "SplitForOutput_reverse_and_grad 2 (- 2) ?ys ?ct = Inr ([?x1, ?x2], (g, []))"
    and "pairing ?ys ?ct = pairing [?x1, ?x2] g"
    by blast
  with rc fw show ?thesis by simp
qed

section \<open>Arithmetic on tensors of equal shape\<close>








section \<open>The combinators, unfolded\<close>

lemma fn_layer_sel [simp]:
  "n_in (fn_layer i out f b) = i" "n_out (fn_layer i out f b) = out"
  "forward_with_state (fn_layer i out f b) xs p s r =
     (if length xs \<noteq> i then Inl ValueError
      else case f xs of Inl e \<Rightarrow> Inl e | Inr ys \<Rightarrow> Inr (ys, s))"
  "pullback (fn_layer i out f b) xs p s r ct =
     (if length xs \<noteq> i \<or> length ct \<noteq> out then Inl ValueError
      else case b xs ct of Inl e \<Rightarrow> Inl e | Inr g \<Rightarrow> Inr (g, zero_cotangent p))"
  by (simp_all add: fn_layer_def)

lemma Serial_Nil [simp]:
  "n_in (Serial []) = 1" "n_out (Serial []) = 1"
  "forward_with_state (Serial []) xs p s r = Inr (xs, s)"
  "pullback (Serial []) xs p s r ct =
     (if length ct \<noteq> length xs then Inl ValueError else Inr (ct, zero_cotangent p))"
  by (simp_all add: Serial_def)

lemma Parallel_arity [simp]:
  "n_in (Parallel ls) = sum_list (map n_in ls)"
  "n_out (Parallel ls) = sum_list (map n_out ls)"
  by (simp_all add: Parallel_def)

lemma prim_arity [simp]:
  "n_in Dup = 1" "n_out Dup = 2" "n_in Swap = 2" "n_out Swap = 2"
  "n_in (Select idx) = Suc (fold max idx 0)" "n_out (Select idx) = length idx"
  "n_in Add = 2" "n_out Add = 1" "n_in SubtractTop = 2" "n_out SubtractTop = 1"
  by (simp_all add: Dup_def Swap_def Select_def Add_def SubtractTop_def)

lemma compute_residual_arity:
  assumes "n_in f = 1" "n_out f = 1"
  shows "n_in (compute_residual f) = 2" "n_out (compute_residual f) = 3"
  using assms by (simp_all add: compute_residual_def Serial_def)

lemma split_rngs_map: "split_rngs rng n = map (child rng n) [0..<n]"
  by (cases rng)
    (simp_all add: split_rngs_def random_split_def child_def [abs_def] map_replicate_const)

lemma residual_key_Suc:
  "residual_key rng = child (child rng (Suc (Suc (Suc (Suc 0)))) (Suc (Suc 0)))
                            (Suc (Suc (Suc 0))) (Suc (Suc 0))"
  by (simp add: residual_key_def eval_nat_numeral)

lemma Serial_forward:
  "ls \<noteq> [] \<Longrightarrow> forward_with_state (Serial ls) xs (Node ps) (Node ss) rng =
     (if int (length xs) < fst (n_inputs_n_outputs ls 0 0) then Inl ValueError
      else if length ps \<noteq> length ls \<or> length ss \<noteq> length ls then Inl ValueError
      else case serial_forward ls xs ps ss (split_rngs rng (length ls)) of
             Inl e \<Rightarrow> Inl e
           | Inr (ys, ss') \<Rightarrow> Inr (ys, Node ss'))"
  by (simp add: Serial_def)


lemma Parallel_forward:
  "forward_with_state (Parallel ls) xs (Node ps) (Node ss) rng =
     (if length xs < sum_list (map n_in ls) then Inl IndexError
      else if length ps \<noteq> length ls \<or> length ss \<noteq> length ls then Inl AssertionError
      else case parallel_forward ls xs ps ss (split_rngs rng (length ls)) of
             Inl e \<Rightarrow> Inl e
           | Inr (ys, ss') \<Rightarrow> Inr (ys, Node ss'))"
  by (simp add: Parallel_def)


lemma Dup_forward: "forward_with_state Dup [x] p s r = Inr ([x, x], s)"
  by (simp add: Dup_def)

lemma Swap_forward: "forward_with_state Swap [a, b] p s r = Inr ([b, a], s)"
  by (simp add: Swap_def)

lemma Select_forward:
  "forward_with_state (Select idx) xs p s r =
     (if length xs \<noteq> Suc (fold max idx 0) then Inl ValueError
      else Inr (map (\<lambda>i. xs ! i) idx, s))"
  by (simp add: Select_def)

lemma Add_forward:
  "forward_with_state Add [a, b] p s r =
     (case tensor_add a b of Inl e \<Rightarrow> Inl e | Inr y \<Rightarrow> Inr ([y], s))"
  by (simp add: Add_def split: sum.splits)


lemma returns_n_out_one:
  assumes "returns_n_out f" "n_out f = 1" "length xs = n_in f"
    "forward_with_state f xs p s r = Inr (ys, s')"
  shows "ys = [ys ! 0]"
proof -
  have "length ys = n_out f"
    using assms(1) [unfolded returns_n_out_def, rule_format, OF assms(3,4)] .
  then have "length ys = 1" using assms(2) by simp
  then show ?thesis by (cases ys) auto
qed

lemma compute_residual_forward:
  assumes "n_in f = 1" "n_out f = 1" "returns_n_out f"
  shows "forward_with_state (compute_residual f) [a, x2]
           (Node [Node [pa, pb], pc, Node [pd, pe, pf], pg])
           (Node [Node [sa, sb], sc, Node [sd, se, sf], sg]) rng =
     (case forward_with_state f [x2] pf sf (residual_key rng) of
        Inl e \<Rightarrow> Inl e
      | Inr (rs, sf') \<Rightarrow>
          Inr ([rs ! 0, a, x2], Node [Node [sa, sb], sc, Node [sd, se, sf'], sg]))"
proof (cases "forward_with_state f [x2] pf sf (residual_key rng)")
  case (Inl e)
  show ?thesis
    using assms(1,2) Inl
    by (simp add: compute_residual_def Serial_forward Parallel_forward split_rngs_map
        Dup_forward Swap_forward residual_key_Suc)
next
  case (Inr res)
  obtain rs sf' where res: "res = (rs, sf')" by (cases res)
  obtain r where rs: "rs = [r]"
    using returns_n_out_one [OF assms(3,2) _ Inr [unfolded res]] assms(1) by auto
  show ?thesis
    using assms(1,2) Inr [unfolded res rs]
    by (simp add: compute_residual_def Serial_forward Parallel_forward split_rngs_map
        Dup_forward Swap_forward Select_forward residual_key_Suc)
qed
section \<open>ReversibleHalfResidual, unfolded\<close>

lemma n_preserve_one: "n_in f = 1 \<Longrightarrow> n_out f = 1 \<Longrightarrow> n_preserve f = 1"
  by (simp add: n_preserve_def compute_residual_arity)

lemma add_top_forward:
  "forward_with_state (Parallel [Add, Serial []]) [r, x1, x2] (Node [ph, pi]) (Node [sh, si]) rng =
     (case tensor_add r x1 of Inl e \<Rightarrow> Inl e | Inr y \<Rightarrow> Inr ([y, x2], Node [sh, si]))"
  by (simp add: Parallel_forward split_rngs_map Add_forward split: sum.splits)


lemma ReversibleHalfResidual_forward:
  assumes "n_in f = 1" "n_out f = 1" "returns_n_out f"
  shows "forward_with_state (ReversibleHalfResidual f) [x1, x2]
           (Node (half_residual_tree pa pb pc pd pe pf pg ph pi))
           (Node (half_residual_tree sa sb sc sd se sf sg sh si)) rng =
     (case forward_with_state f [x2] pf sf (residual_key (child rng 2 0)) of
        Inl e \<Rightarrow> Inl e
      | Inr (rs, sf') \<Rightarrow>
          (case tensor_add (rs ! 0) x1 of
             Inl e \<Rightarrow> Inl e
           | Inr y1 \<Rightarrow>
               Inr ([y1, x2], Node (half_residual_tree sa sb sc sd se sf' sg sh si))))"
proof -
  have ar: "fst (n_inputs_n_outputs
               [compute_residual f, Parallel [Add, Serial []]] 0 0) = 2"
    using assms(1,2) by (simp add: compute_residual_arity)
  show ?thesis
    using assms(1,2)
    by (simp add: ReversibleHalfResidual_def n_preserve_one Serial_forward ar
        half_residual_tree_def split_rngs_map compute_residual_arity
        compute_residual_forward [OF assms] add_top_forward numeral_2_eq_2
        split: sum.splits prod.splits)
qed



lemma broadcast_shapes_rev_commute: "broadcast_shapes_rev xs ys = broadcast_shapes_rev ys xs"
proof (induction xs ys rule: broadcast_shapes_rev.induct)
  case (1 ys)
  then show ?case by (cases ys) simp_all
next
  case (2 x xs)
  then show ?case by simp
next
  case (3 x xs y ys)
  then show ?case by auto
qed

lemma map2_commute: "map2 (+) xs ys = map2 (+) ys (xs :: 'a::ab_group_add list)"
proof (induction xs arbitrary: ys)
  case Nil
  then show ?case by simp
next
  case (Cons a xs)
  then show ?case by (cases ys) (simp_all add: add.commute)
qed

lemma tensor_add_commute: "tensor_add x y = tensor_add y x"
proof -
  have "broadcast_shapes (shape x) (shape y) = broadcast_shapes (shape y) (shape x)"
    unfolding broadcast_shapes_def by (simp add: broadcast_shapes_rev_commute)
  then show ?thesis
    unfolding tensor_add_def tensor_binop_def
    by (simp add: map2_commute [of "broadcast_to x _"] split: option.splits)
qed

lemma Double_arity [simp]: "n_in Double = 1" "n_out Double = 1"
  by (simp_all add: Double_def)

lemma Double_forward:
  "forward_with_state Double [x] p s r =
     (case tensor_add x x of Inl e \<Rightarrow> Inl e | Inr y \<Rightarrow> Inr ([y], s))"
  by (simp add: Double_def split: sum.splits)

lemma Double_returns_n_out: "returns_n_out (Double :: 'a::ab_group_add layer)"
  unfolding returns_n_out_def
  by (auto simp: Double_def split: sum.splits if_splits)




section \<open>Pullbacks, unfolded\<close>














section \<open>Properties of ReversibleHalfResidual\<close>

text \<open>
  C4. For every input pair \<open>(x1, x2)\<close> the forward pass of \<open>ReversibleHalfResidual f\<close>
  is \<open>([x1 + r, x2], new_state)\<close>, where \<open>r\<close> is the output of the residual layers
  applied to \<open>[x2]\<close> alone, with their own entry of the parameters and of the state and
  the key that the combinators hand them. The residual layers are applied to nothing
  else: \<open>x1\<close> only enters the sum, and \<open>x2\<close> is returned as it came. An error of the
  residual layers or of the addition is the error of the forward pass.
\<close>

theorem ReversibleHalfResidual_forward_residual:
  assumes "n_in f = 1" and "n_out f = 1" and "returns_n_out f"
  shows "forward_with_state (ReversibleHalfResidual f) [x1, x2]
           (Node (half_residual_tree pa pb pc pd pe pf pg ph pi))
           (Node (half_residual_tree sa sb sc sd se sf sg sh si)) rng =
     (case forward_with_state f [x2] pf sf (residual_key (child rng 2 0)) of
        Inl e \<Rightarrow> Inl e
      | Inr (rs, sf') \<Rightarrow>
          (case tensor_add x1 (rs ! 0) of
             Inl e \<Rightarrow> Inl e
           | Inr y1 \<Rightarrow>
               Inr ([y1, x2], Node (half_residual_tree sa sb sc sd se sf' sg sh si))))"
  unfolding tensor_add_commute [of x1]
  using assms by (rule ReversibleHalfResidual_forward)

theorem ReversibleHalfResidual_forward_residual_witness:
  "n_in (Double :: int layer) = 1 \<and> n_out (Double :: int layer) = 1
   \<and> returns_n_out (Double :: int layer)
   \<and> forward_with_state (ReversibleHalfResidual Double)
        [\<lparr>shape = [2, 2], data = [1, 2, 3, 4 :: int]\<rparr>,
         \<lparr>shape = [2, 2], data = [10, 20, 30, 40]\<rparr>]
        (Node no_params) (Node no_params) None
      = Inr ([\<lparr>shape = [2, 2], data = [21, 42, 63, 84]\<rparr>,
              \<lparr>shape = [2, 2], data = [10, 20, 30, 40]\<rparr>],
             Node no_params)"
proof -
  let ?x2 = "\<lparr>shape = [2, 2], data = [10, 20, 30, 40 :: int]\<rparr>"
  have d: "tensor_add ?x2 ?x2 = Inr \<lparr>shape = [2, 2], data = [20, 40, 60, 80]\<rparr>"
    by code_simp
  have a: "tensor_add \<lparr>shape = [2, 2], data = [1, 2, 3, 4 :: int]\<rparr>
             \<lparr>shape = [2, 2], data = [20, 40, 60, 80]\<rparr>
         = Inr \<lparr>shape = [2, 2], data = [21, 42, 63, 84]\<rparr>"
    by code_simp
  show ?thesis
    unfolding no_params_def
    using ReversibleHalfResidual_forward_residual
      [OF Double_arity Double_returns_n_out, where ?'a = int]
    by (simp add: Double_returns_n_out Double_forward d a)
qed









section \<open>ReversibleAttentionHalfResidual, unfolded\<close>

lemma zero_cotangent_empty [simp]: "zero_cotangent (Node []) = Node []"
  by (simp add: zero_cotangent_def)








































section \<open>Properties of ReversibleAttentionHalfResidual\<close>




section \<open>Properties of Chunk and Unchunk\<close>

lemma shape_rank2:
  "2 \<le> length s \<Longrightarrow> [s ! 0, s ! 1] @ drop 2 s = (s :: nat list)"
  by (cases s; cases "tl s") auto

lemma prod_list_rank2:
  "2 \<le> length s \<Longrightarrow> prod_list s = s ! 0 * s ! 1 * prod_list (drop 2 s)"
  by (cases s; cases "tl s") (auto simp: mult.assoc)

lemma Chunk_ok:
  assumes "2 \<le> length (shape x)" "0 < n" "shape x ! 1 mod n = 0"
  shows "Chunk n x = Inr \<lparr>shape = [shape x ! 0 * n, shape x ! 1 div n] @ drop 2 (shape x),
                         data = data x\<rparr>"
proof -
  have "n * (shape x ! 1 div n) = shape x ! 1"
    using assms(3) by (simp add: mod_0_imp_dvd)
  then have "shape x ! 0 * n * (shape x ! 1 div n) * prod_list (drop 2 (shape x))
      = shape x ! 0 * shape x ! 1 * prod_list (drop 2 (shape x))"
    by (simp add: mult.assoc)
  then have "prod_list ([shape x ! 0 * n, shape x ! 1 div n] @ drop 2 (shape x))
      = prod_list (shape x)"
    using prod_list_rank2 [OF assms(1)] by (simp add: mult.assoc)
  then show ?thesis
    using assms unfolding Chunk_def reshape_def by simp
qed

text \<open>
  C5. For every tensor of rank at least 2 whose second axis extent is evenly divisible
  by the (positive) section count \<open>n\<close>, Chunk succeeds with shape
  \<open>[batch * n, length div n, ...]\<close> and the same entries, and Unchunk applied to the
  result (same \<open>n\<close>) returns the input tensor exactly.
\<close>

theorem Unchunk_Chunk_roundtrip:
  assumes "2 \<le> length (shape x)" and "0 < n" and "n dvd shape x ! 1"
  shows "\<exists>c. Chunk n x = Inr c
           \<and> shape c = [shape x ! 0 * n, shape x ! 1 div n] @ drop 2 (shape x)
           \<and> data c = data x
           \<and> Unchunk n c = Inr x"
proof -
  let ?c = "\<lparr>shape = [shape x ! 0 * n, shape x ! 1 div n] @ drop 2 (shape x),
             data = data x\<rparr>"
  have m: "shape x ! 1 mod n = 0" using assms(3) by (simp add: mod_eq_0_iff_dvd)
  have c: "Chunk n x = Inr ?c" by (rule Chunk_ok [OF assms(1,2) m])
  have orig: "[shape x ! 0 * n div n, shape x ! 1 div n * n] @ drop 2 (shape x) = shape x"
    using assms shape_rank2 [of "shape x"] by simp
  have "prod_list (shape ?c) = prod_list (shape x)"
    using assms prod_list_rank2 [of "shape x"] by (simp add: mult.assoc)
  then have "Unchunk n ?c = Inr x"
    using assms(2) orig by (simp add: Unchunk_def reshape_def)
  with c show ?thesis by simp
qed

theorem Unchunk_Chunk_roundtrip_witness:
  "2 \<le> length (shape \<lparr>shape = [1, 4, 1], data = [10, 20, 30, 40 :: int]\<rparr>)
   \<and> (0::nat) < 2
   \<and> (2::nat) dvd shape \<lparr>shape = [1, 4, 1], data = [10, 20, 30, 40 :: int]\<rparr> ! 1
   \<and> (\<exists>c. Chunk 2 \<lparr>shape = [1, 4, 1], data = [10, 20, 30, 40 :: int]\<rparr> = Inr c
          \<and> shape c = [2, 2, 1] \<and> data c = [10, 20, 30, 40]
          \<and> Unchunk 2 c = Inr \<lparr>shape = [1, 4, 1], data = [10, 20, 30, 40]\<rparr>)"
proof -
  let ?x = "\<lparr>shape = [1, 4, 1], data = [10, 20, 30, 40 :: int]\<rparr>"
  have h1: "2 \<le> length (shape ?x)" by simp
  have h2: "(0::nat) < 2" by simp
  have h3: "(2::nat) dvd shape ?x ! 1" by simp
  from Unchunk_Chunk_roundtrip [OF h1 h2 h3] h1 h2 h3 show ?thesis by simp
qed

text \<open>
  C7. On a tensor with a length axis (rank at least 2) whose extent is not evenly
  divisible by \<open>n_sections\<close>, Chunk fails: the divisibility check
  \<^verbatim>\<open>assert x.shape[1] % n_sections == 0\<close> raises (AssertionError for a positive section
  count, ZeroDivisionError of the same expression for \<open>n_sections = 0\<close>). With
  \<open>n_sections = 1\<close> Chunk returns its input, shape and entries unchanged.
\<close>

theorem Chunk_divisibility_rejection:
  "(2 \<le> length (shape x) \<and> \<not> n dvd shape x ! 1
      \<longrightarrow> Chunk n x = Inl (if n = 0 then ZeroDivisionError else AssertionError))
   \<and> (2 \<le> length (shape x) \<longrightarrow> Chunk 1 x = Inr x)"
proof (intro conjI impI)
  assume "2 \<le> length (shape x) \<and> \<not> n dvd shape x ! 1"
  then show "Chunk n x = Inl (if n = 0 then ZeroDivisionError else AssertionError)"
    unfolding Chunk_def by (simp add: mod_eq_0_iff_dvd)
next
  assume r: "2 \<le> length (shape x)"
  have "[shape x ! 0 * 1, shape x ! 1 div 1] @ drop 2 (shape x) = shape x"
    using shape_rank2 [OF r] by simp
  then have "reshape x ([shape x ! 0 * 1, shape x ! 1 div 1] @ drop 2 (shape x)) = Inr x"
    unfolding reshape_def by simp
  then show "Chunk 1 x = Inr x"
    using r unfolding Chunk_def by simp
qed

theorem Chunk_divisibility_rejection_witness:
  "Chunk 2 \<lparr>shape = [1, 3], data = [1, 2, 3 :: int]\<rparr> = Inl AssertionError
   \<and> Chunk 1 \<lparr>shape = [1, 3], data = [1, 2, 3 :: int]\<rparr>
       = Inr \<lparr>shape = [1, 3], data = [1, 2, 3]\<rparr>"
  using Chunk_divisibility_rejection [of "\<lparr>shape = [1, 3], data = [1, 2, 3 :: int]\<rparr>" 2]
  by simp

end
